theory Spec2Isabelle
  imports Main "HOL-Library.Char_ord" "HOL-Library.List_Lexorder"
begin

section \<open>The golden-file test utilities and the command-line entry point\<close>

text \<open>
  A shallow embedding of \<^verbatim>\<open>simple/tests/stats/test_util.py\<close> and
  \<^verbatim>\<open>simple/stats/main.py\<close>. Python strings are \<^typ>\<open>string\<close>; exceptions
  are values of a sum type; module globals, the process environment and the file
  system are explicit state.
\<close>

subsection \<open>The process environment and the module globals of test\_util\<close>

text \<open>\<^verbatim>\<open>os.environ\<close>: a dictionary from variable names to values.\<close>

type_synonym environ = "string \<rightharpoonup> string"

text \<open>\<^verbatim>\<open>os.getenv(key, default)\<close>.\<close>

definition getenv :: "environ \<Rightarrow> string \<Rightarrow> string \<Rightarrow> string" where
  "getenv env key dflt = (case env key of None \<Rightarrow> dflt | Some v \<Rightarrow> v)"

text \<open>
  The two module-level assignments of test\_util.py,
  \<^verbatim>\<open>_TEST_MODE = os.getenv("TEST_MODE", "")\<close> and \<^verbatim>\<open>_WRITE_MODE = "write"\<close>,
  are executed once, when the module is imported.
\<close>

record test_util_globals =
  TEST_MODE :: string
  WRITE_MODE :: string

definition import_test_util :: "environ \<Rightarrow> test_util_globals" where
  "import_test_util env =
     \<lparr>TEST_MODE = getenv env ''TEST_MODE'' [], WRITE_MODE = ''write''\<rparr>"

text \<open>\<^verbatim>\<open>def is_write_mode(): return _TEST_MODE == _WRITE_MODE\<close>\<close>

definition is_write_mode :: "test_util_globals \<Rightarrow> bool" where
  "is_write_mode g = (TEST_MODE g = WRITE_MODE g)"

text \<open>
  A process after the import: its environment, which later code may change, and the
  globals of the imported module. The actions are the ones a test process can take on
  the two: changing the environment and calling \<^verbatim>\<open>is_write_mode()\<close>, whose
  results are collected in call order.
\<close>

record process =
  environ :: environ
  globals :: test_util_globals

datatype action = Setenv string string | Unsetenv string | Call_is_write_mode

definition start_process :: "environ \<Rightarrow> process" where
  "start_process env = \<lparr>environ = env, globals = import_test_util env\<rparr>"

fun step :: "process \<Rightarrow> action \<Rightarrow> process \<times> bool list" where
  "step p (Setenv k v) = (p\<lparr>environ := (environ p)(k \<mapsto> v)\<rparr>, [])"
| "step p (Unsetenv k) = (p\<lparr>environ := (environ p)(k := None)\<rparr>, [])"
| "step p Call_is_write_mode = (p, [is_write_mode (globals p)])"

fun run_actions :: "process \<Rightarrow> action list \<Rightarrow> process \<times> bool list" where
  "run_actions p [] = (p, [])"
| "run_actions p (a # as) =
     (case step p a of (p', out) \<Rightarrow>
        (case run_actions p' as of (p'', outs) \<Rightarrow> (p'', out @ outs)))"

subsection \<open>Text files\<close>

text \<open>
  The exceptions the modelled code raises. \<open>AssertionError\<close> is
  \<^verbatim>\<open>unittest.TestCase.failureException\<close>.
\<close>

datatype error =
  AssertionError
  | FileNotFoundError
  | IsADirectoryError
  | UnicodeDecodeError
  | ParserError
  | RunnerError
  | OperationalError
  | ValueError
  | TypeError
  | EmptyDataError

text \<open>
  The file system: a path names a regular file (with its bytes), a directory, or
  nothing. \<^verbatim>\<open>os.path.exists\<close> is true of files and of directories.
\<close>

datatype node = File string | Dir

type_synonym filesystem = "string \<rightharpoonup> node"

definition path_exists :: "filesystem \<Rightarrow> string \<Rightarrow> bool" where
  "path_exists fs p = (fs p \<noteq> None)"

text \<open>
  \<^verbatim>\<open>open(path)\<close> opens in text mode with the default encoding, taken to be
  UTF-8, and with universal newlines. A text is represented by its UTF-8 bytes, so
  decoding is the check that the bytes are well-formed UTF-8 (the ranges Python's
  strict decoder accepts), and \<^verbatim>\<open>read()\<close> returns the text with every
  \<open>CR LF\<close> and every remaining \<open>CR\<close> replaced by \<open>LF\<close>.
\<close>

abbreviation CR :: char where "CR \<equiv> CHR 0x0D"
abbreviation LF :: char where "LF \<equiv> CHR 0x0A"

definition byte_in :: "char \<Rightarrow> nat \<Rightarrow> nat \<Rightarrow> bool" where
  "byte_in c lo hi = (lo \<le> of_char c \<and> (of_char c :: nat) \<le> hi)"

fun utf8_valid :: "string \<Rightarrow> bool" where
  "utf8_valid [] = True"
| "utf8_valid (a # rest) =
     (if byte_in a 0x00 0x7F then utf8_valid rest
      else (case rest of
        [] \<Rightarrow> False
      | b # rest1 \<Rightarrow>
          if byte_in a 0xC2 0xDF then byte_in b 0x80 0xBF \<and> utf8_valid rest1
          else (case rest1 of
            [] \<Rightarrow> False
          | c # rest2 \<Rightarrow>
              if byte_in a 0xE0 0xEF then
                (if byte_in a 0xE0 0xE0 then byte_in b 0xA0 0xBF
                 else if byte_in a 0xED 0xED then byte_in b 0x80 0x9F
                 else byte_in b 0x80 0xBF)
                \<and> byte_in c 0x80 0xBF \<and> utf8_valid rest2
              else (case rest2 of
                [] \<Rightarrow> False
              | d # rest3 \<Rightarrow>
                  byte_in a 0xF0 0xF4
                  \<and> (if byte_in a 0xF0 0xF0 then byte_in b 0x90 0xBF
                     else if byte_in a 0xF4 0xF4 then byte_in b 0x80 0x8F
                     else byte_in b 0x80 0xBF)
                  \<and> byte_in c 0x80 0xBF \<and> byte_in d 0x80 0xBF \<and> utf8_valid rest3))))"

fun universal_newlines :: "string \<Rightarrow> string" where
  "universal_newlines [] = []"
| "universal_newlines [c] = [if c = CR then LF else c]"
| "universal_newlines (c # d # cs) =
     (if c = CR \<and> d = LF then LF # universal_newlines cs
      else (if c = CR then LF else c) # universal_newlines (d # cs))"

text \<open>\<^verbatim>\<open>with open(path) as f: f.read()\<close>\<close>

definition read_text :: "filesystem \<Rightarrow> string \<Rightarrow> error + string" where
  "read_text fs p =
     (case fs p of
        None \<Rightarrow> Inl FileNotFoundError
      | Some Dir \<Rightarrow> Inl IsADirectoryError
      | Some (File bytes) \<Rightarrow>
          if utf8_valid bytes then Inr (universal_newlines bytes)
          else Inl UnicodeDecodeError)"

subsection \<open>compare\_files\<close>

text \<open>
  \<^verbatim>\<open>test.assertEqual(x, y)\<close> raises the test's failure exception unless the
  two are equal.
\<close>

definition assertEqual :: "'a \<Rightarrow> 'a \<Rightarrow> error + unit" where
  "assertEqual x y = (if x = y then Inr () else Inl AssertionError)"

text \<open>
  \<^verbatim>\<open>compare_files(test, actual_path, expected_path, message)\<close>: the existence
  check, the early return when the expected file is absent, then both files are opened
  and read (the actual one first) and the two texts compared. The message only labels
  the failure and is left out.
\<close>

definition compare_files :: "filesystem \<Rightarrow> string \<Rightarrow> string \<Rightarrow> error + unit" where
  "compare_files fs actual_path expected_path =
     (let actual_file_exists = path_exists fs actual_path;
          expected_file_exists = path_exists fs expected_path
      in case assertEqual actual_file_exists expected_file_exists of
           Inl e \<Rightarrow> Inl e
         | Inr _ \<Rightarrow>
             if expected_file_exists = False then Inr ()
             else (case read_text fs actual_path of
                     Inl e \<Rightarrow> Inl e
                   | Inr got \<Rightarrow>
                       (case read_text fs expected_path of
                          Inl e \<Rightarrow> Inl e
                        | Inr want \<Rightarrow> assertEqual got want)))"

text \<open>Two small file systems used as concrete inputs.\<close>

definition fs_crlf :: filesystem where
  "fs_crlf = [''actual.csv'' \<mapsto> File (''a,b'' @ [CR, LF]),
              ''expected.csv'' \<mapsto> File (''a,b'' @ [LF])]"

definition fs_differ :: filesystem where
  "fs_differ = [''actual.csv'' \<mapsto> File ''1'', ''expected.csv'' \<mapsto> File ''2'']"

definition fs_only_expected :: filesystem where
  "fs_only_expected = [''expected.csv'' \<mapsto> File ''lookup_key,value'']"

text \<open>
  The two readings of "the files agree". The first follows the specification's words:
  both files exist with identical bytes, or neither path exists. The second is what
  the text-mode comparison decides: both are regular files that decode, with equal
  texts after newline translation, or neither path exists.
\<close>

definition same_bytes_or_both_absent :: "filesystem \<Rightarrow> string \<Rightarrow> string \<Rightarrow> bool" where
  "same_bytes_or_both_absent fs a e =
     (case (fs a, fs e) of
        (Some (File x), Some (File y)) \<Rightarrow> x = y
      | (None, None) \<Rightarrow> True
      | _ \<Rightarrow> False)"

definition same_text_or_both_absent :: "filesystem \<Rightarrow> string \<Rightarrow> string \<Rightarrow> bool" where
  "same_text_or_both_absent fs a e =
     (case (fs a, fs e) of
        (Some (File x), Some (File y)) \<Rightarrow>
          utf8_valid x \<and> utf8_valid y \<and> universal_newlines x = universal_newlines y
      | (None, None) \<Rightarrow> True
      | _ \<Rightarrow> False)"

subsection \<open>main.py: the flags, the frozen clock and the Runner\<close>

text \<open>The six flags main.py defines; \<open>config_file\<close> defaults to \<open>None\<close>.\<close>

record flags =
  config_file :: "string option"
  input_dir :: string
  output_dir :: string
  mode :: string
  freeze_time :: bool
  frozen_time :: string

text \<open>The keyword arguments of \<^verbatim>\<open>Runner(...)\<close>.\<close>

record runner_args =
  config_file_path :: "string option"
  input_dir_path :: string
  output_dir_path :: string
  run_mode :: string

text \<open>
  The clock a piece of code observes: the real one, or one pinned to an instant by
  \<^verbatim>\<open>freeze_time(instant, ignore=packages)\<close>, with the packages of the ignore
  list still seeing the real time.
\<close>

datatype 'i clock = Real_clock | Frozen 'i "string list"

text \<open>
  The object bound to \<^verbatim>\<open>gzip.time\<close>: the \<open>time\<close> module, or an instance of
  \<^verbatim>\<open>FakeGzipTime\<close> whose \<^verbatim>\<open>time()\<close> returns its timestamp.
\<close>

datatype gzip_time_source = Time_module | FakeGzipTime int

fun gzip_time_now :: "gzip_time_source \<Rightarrow> int \<Rightarrow> int" where
  "gzip_time_now Time_module real_now = real_now"
| "gzip_time_now (FakeGzipTime timestamp) real_now = timestamp"

text \<open>What happens during a run of main, in order.\<close>

datatype 'i event =
  Logging_info string
  | Initialize_logger
  | Runner_run runner_args "'i clock"

text \<open>
  The state of the Python process: the freezes that are active (freezegun keeps a
  stack; the innermost comes first), the binding of \<^verbatim>\<open>gzip.time\<close>, the rest of
  the world the Runner works on, and the events so far.
\<close>

record ('i, 'w) py_process =
  freezes :: "('i \<times> string list) list"
  gzip_time :: gzip_time_source
  world :: 'w
  trace :: "'i event list"

definition current_clock :: "('i, 'w) py_process \<Rightarrow> 'i clock" where
  "current_clock st =
     (case freezes st of [] \<Rightarrow> Real_clock | (i, ignore) # _ \<Rightarrow> Frozen i ignore)"

text \<open>
  \<^verbatim>\<open>Runner(...).run()\<close> is not part of these sources: it is a parameter, a
  function of its arguments, the clock it observes and the world, that returns
  the exception it raised, if any, and the new world.
\<close>

type_synonym ('i, 'w) runner = "runner_args \<Rightarrow> 'i clock \<Rightarrow> 'w \<Rightarrow> error option \<times> 'w"

definition FREEZE_TIME_IGNORE_LIST :: "string list" where
  "FREEZE_TIME_IGNORE_LIST = [''transformers'']"

definition log :: "'i event \<Rightarrow> ('i, 'w) py_process \<Rightarrow> ('i, 'w) py_process" where
  "log ev st = st\<lparr>trace := trace st @ [ev]\<rparr>"

definition runner_args_of :: "flags \<Rightarrow> runner_args" where
  "runner_args_of fl =
     \<lparr>config_file_path = config_file fl, input_dir_path = input_dir fl,
      output_dir_path = output_dir fl, run_mode = mode fl\<rparr>"

text \<open>
  \<^verbatim>\<open>def _run(): initialize_logger(); Runner(config_file_path=FLAGS.config_file, ...).run()\<close>
\<close>

definition run :: "('i, 'w) runner \<Rightarrow> flags \<Rightarrow> ('i, 'w) py_process
    \<Rightarrow> error option \<times> ('i, 'w) py_process" where
  "run runner fl st =
     (let st1 = log Initialize_logger st;
          args = runner_args_of fl;
          st2 = log (Runner_run args (current_clock st1)) st1;
          (raised, w) = runner args (current_clock st1) (world st2)
      in (raised, st2\<lparr>world := w\<rparr>))"

text \<open>
  The context manager \<^verbatim>\<open>freeze_time(time_to_freeze, ignore=...)\<close>. Constructing
  it parses the string (the parser is a parameter) and raises when the string is no
  date; entering it pushes the freeze; leaving it, normally or by an exception, pops it.
\<close>

definition freeze_enter :: "'i \<Rightarrow> string list \<Rightarrow> ('i, 'w) py_process \<Rightarrow> ('i, 'w) py_process" where
  "freeze_enter i ignore st = st\<lparr>freezes := (i, ignore) # freezes st\<rparr>"

definition freeze_exit :: "('i, 'w) py_process \<Rightarrow> ('i, 'w) py_process" where
  "freeze_exit st = st\<lparr>freezes := tl (freezes st)\<rparr>"

text \<open>
  \<^verbatim>\<open>def main(_)\<close>: with the flag set, the log line, then \<^verbatim>\<open>_run()\<close> inside
  \<^verbatim>\<open>with freeze_time(FLAGS.frozen_time, ignore=_FREEZE_TIME_IGNORE_LIST)\<close>;
  otherwise \<^verbatim>\<open>_run()\<close> alone.
\<close>

definition main :: "(string \<Rightarrow> 'i option) \<Rightarrow> ('i, 'w) runner \<Rightarrow> flags \<Rightarrow> ('i, 'w) py_process
    \<Rightarrow> error option \<times> ('i, 'w) py_process" where
  "main parse runner fl st =
     (if freeze_time fl then
        (let st1 = log (Logging_info (''Running with time frozen at: '' @ frozen_time fl)) st
         in case parse (frozen_time fl) of
              None \<Rightarrow> (Some ParserError, st1)
            | Some i \<Rightarrow>
                (let st2 = freeze_enter i FREEZE_TIME_IGNORE_LIST st1;
                     (raised, st3) = run runner fl st2
                 in (raised, freeze_exit st3)))
      else run runner fl st)"

text \<open>The state in which the frozen branch of main calls \<^verbatim>\<open>_run()\<close>.\<close>

definition frozen_start :: "'i \<Rightarrow> flags \<Rightarrow> ('i, 'w) py_process \<Rightarrow> ('i, 'w) py_process" where
  "frozen_start i fl st =
     freeze_enter i FREEZE_TIME_IGNORE_LIST
       (log (Logging_info (''Running with time frozen at: '' @ frozen_time fl)) st)"

text \<open>\<^verbatim>\<open>def use_fake_gzip_time(timestamp=0): gzip.time = FakeGzipTime(timestamp)\<close>\<close>

definition use_fake_gzip_time :: "int \<Rightarrow> ('i, 'w) py_process \<Rightarrow> ('i, 'w) py_process" where
  "use_fake_gzip_time timestamp st = st\<lparr>gzip_time := FakeGzipTime timestamp\<rparr>"

text \<open>The calls of \<^verbatim>\<open>Runner(...).run()\<close> in a trace, with the clock of each.\<close>

fun runner_runs :: "'i event list \<Rightarrow> (runner_args \<times> 'i clock) list" where
  "runner_runs [] = []"
| "runner_runs (Runner_run args c # evs) = (args, c) # runner_runs evs"
| "runner_runs (_ # evs) = runner_runs evs"

text \<open>
  Concrete instances: a process fresh from the interpreter, a date parser for the
  calendar dates \<open>YYYY-MM-DD\<close> (every date parser rejects the empty string), two
  Runners, one that returns and one that raises, and three flag assignments.
\<close>

definition fresh_process :: "(string, unit) py_process" where
  "fresh_process = \<lparr>freezes = [], gzip_time = Time_module, world = (), trace = []\<rparr>"

definition is_digit :: "char \<Rightarrow> bool" where
  "is_digit c = (c \<in> set ''0123456789'')"

definition parse_iso_date :: "string \<Rightarrow> string option" where
  "parse_iso_date s =
     (case s of
        [y1, y2, y3, y4, h1, m1, m2, h2, d1, d2] \<Rightarrow>
          if list_all is_digit [y1, y2, y3, y4, m1, m2, d1, d2]
             \<and> h1 = CHR ''-'' \<and> h2 = CHR ''-''
          then Some s else None
      | _ \<Rightarrow> None)"

definition runner_ok :: "(string, unit) runner" where
  "runner_ok args c w = (None, w)"

definition runner_raises :: "(string, unit) runner" where
  "runner_raises args c w = (Some RunnerError, w)"

definition flags_frozen :: flags where
  "flags_frozen =
     \<lparr>config_file = Some ''config.json'', input_dir = ''in'', output_dir = ''out'',
      mode = ''customdc'', freeze_time = True, frozen_time = ''2023-01-01''\<rparr>"



subsection \<open>The SQLite store\<close>

text \<open>
  A value of a table cell as \<^verbatim>\<open>fetchall()\<close> returns it: \<open>None\<close> for NULL, a
  \<open>str\<close> for TEXT. Values of the storage classes INTEGER, REAL and BLOB are outside
  the model. A table is its \<open>CREATE TABLE\<close> statement, as \<open>sqlite_master\<close> keeps it,
  and its rows in rowid order; a store is the list of its tables by name.
\<close>

datatype cell = Null | Text string

record table =
  sql :: string
  rows :: "cell list list"

type_synonym store = "(string \<times> table) list"

text \<open>
  \<^verbatim>\<open>db.execute("select * from <name>").fetchall()\<close> on the database that
  \<^verbatim>\<open>sqlite3.connect(db_path)\<close> opened: the rows in table order, or
  \<open>OperationalError\<close> (no such table).
\<close>

definition select_all :: "store \<Rightarrow> string \<Rightarrow> error + cell list list" where
  "select_all db name =
     (case map_of db name of None \<Rightarrow> Inl OperationalError | Some t \<Rightarrow> Inr (rows t))"

subsection \<open>pandas: building a DataFrame and writing it as CSV\<close>

text \<open>A DataFrame: its column labels and its rows.\<close>

record data_frame =
  columns :: "string list"
  body :: "cell list list"

text \<open>
  \<^verbatim>\<open>pd.DataFrame(rows, columns=names)\<close> for a list of tuples: the tuples are
  padded with \<open>None\<close> to the longest one, and the number of labels must be that
  width, unless there are no rows.
\<close>

definition pad_row :: "nat \<Rightarrow> cell list \<Rightarrow> cell list" where
  "pad_row width r = r @ replicate (width - length r) Null"

definition DataFrame :: "cell list list \<Rightarrow> string list \<Rightarrow> error + data_frame" where
  "DataFrame rs names =
     (if rs = [] then Inr \<lparr>columns = names, body = []\<rparr>
      else (let width = foldr max (map length rs) 0
            in if width = length names
               then Inr \<lparr>columns = names, body = map (pad_row width) rs\<rparr>
               else Inl ValueError))"

text \<open>
  \<^verbatim>\<open>csv.writer\<close> with the default dialect and the line terminator \<open>LF\<close>
  (pandas passes \<^verbatim>\<open>os.linesep\<close>): a field holding a comma, a double quote, a
  \<open>CR\<close> or an \<open>LF\<close> is written in double quotes with its double quotes
  doubled; a record that is one empty field is written \<open>""\<close>; a record of no
  fields is an empty line.
\<close>

definition needs_quoting :: "string \<Rightarrow> bool" where
  "needs_quoting s = list_ex (\<lambda>c. c = CHR '','' \<or> c = CHR 0x22 \<or> c = CR \<or> c = LF) s"

definition escape_quotes :: "string \<Rightarrow> string" where
  "escape_quotes s = concat (map (\<lambda>c. if c = CHR 0x22 then [c, c] else [c]) s)"

definition quote_field :: "string \<Rightarrow> string" where
  "quote_field s =
     (if needs_quoting s then [CHR 0x22] @ escape_quotes s @ [CHR 0x22] else s)"

fun join :: "string \<Rightarrow> string list \<Rightarrow> string" where
  "join sep [] = []"
| "join sep [x] = x"
| "join sep (x # y # ys) = x @ sep @ join sep (y # ys)"

definition csv_row :: "string list \<Rightarrow> string" where
  "csv_row values =
     (if values = [[]] then [CHR 0x22, CHR 0x22] else join '','' (map quote_field values))
     @ [LF]"

text \<open>
  How \<open>to_csv\<close> writes a value of an object column: a missing value as the empty
  string (\<open>na_rep\<close>), a string as it is.
\<close>

fun cell_str :: "cell \<Rightarrow> string" where
  "cell_str Null = []"
| "cell_str (Text s) = s"

text \<open>
  \<^verbatim>\<open>df.to_csv(output_path, index=False)\<close>: the header record with the column
  labels, then one record per row, in order, with no index column; the file is created
  or replaced. Writing to a directory raises.
\<close>

definition csv_text :: "data_frame \<Rightarrow> string" where
  "csv_text df = concat (map csv_row (columns df # map (map cell_str) (body df)))"

definition write_file :: "filesystem \<Rightarrow> string \<Rightarrow> string \<Rightarrow> error + filesystem" where
  "write_file fs path bytes =
     (if fs path = Some Dir then Inl IsADirectoryError else Inr (fs(path \<mapsto> File bytes)))"

definition to_csv :: "data_frame \<Rightarrow> filesystem \<Rightarrow> string \<Rightarrow> error + filesystem" where
  "to_csv df fs output_path = write_file fs output_path (csv_text df)"

subsection \<open>Triples\<close>

text \<open>
  Modelled from the spec: the dataclass \<open>Triple\<close> of \<^verbatim>\<open>stats.data\<close>, which is
  not among these sources. Section 3 of the specification gives its fields: subject
  id, predicate, object id, object value.
\<close>

record triple =
  subject_id :: cell
  predicate :: cell
  object_id :: cell
  object_value :: cell

definition TRIPLE_FIELD_NAMES :: "string list" where
  "TRIPLE_FIELD_NAMES = [''subject_id'', ''predicate'', ''object_id'', ''object_value'']"

text \<open>\<^verbatim>\<open>Triple(*row)\<close>: the values of the row, by position.\<close>

definition Triple :: "cell list \<Rightarrow> error + triple" where
  "Triple row =
     (case row of
        [s, p, oi, ov] \<Rightarrow>
          Inr \<lparr>subject_id = s, predicate = p, object_id = oi, object_value = ov\<rparr>
      | _ \<Rightarrow> Inl TypeError)"

definition triple_values :: "triple \<Rightarrow> cell list" where
  "triple_values t = [subject_id t, predicate t, object_id t, object_value t]"

text \<open>
  \<^verbatim>\<open>pd.DataFrame(triples)\<close> for a list of dataclass instances: the columns are
  the fields of the first instance, so an empty list gives a frame with no columns.
\<close>

definition DataFrame_of_triples :: "triple list \<Rightarrow> data_frame" where
  "DataFrame_of_triples triples =
     (if triples = [] then \<lparr>columns = [], body = []\<rparr>
      else \<lparr>columns = TRIPLE_FIELD_NAMES, body = map triple_values triples\<rparr>)"

text \<open>The list comprehension \<^verbatim>\<open>[f(x) for x in xs]\<close> stops at the first exception.\<close>

fun map_result :: "('a \<Rightarrow> error + 'b) \<Rightarrow> 'a list \<Rightarrow> error + 'b list" where
  "map_result f [] = Inr []"
| "map_result f (x # xs) =
     (case f x of
        Inl e \<Rightarrow> Inl e
      | Inr y \<Rightarrow> (case map_result f xs of Inl e \<Rightarrow> Inl e | Inr ys \<Rightarrow> Inr (y # ys)))"

subsection \<open>The CSV exports of test\_util\<close>

text \<open>
  In each export \<open>db\<close> is the database that \<^verbatim>\<open>sqlite3.connect(db_path)\<close>
  opens, and \<open>fs\<close> the file system the CSV is written to.
  \<open>OBSERVATION_FIELD_NAMES\<close> comes from \<^verbatim>\<open>stats.data\<close>, which is not among
  these sources: it is a parameter.
\<close>

definition write_observations ::
    "string list \<Rightarrow> store \<Rightarrow> filesystem \<Rightarrow> string \<Rightarrow> error + filesystem" where
  "write_observations OBSERVATION_FIELD_NAMES db fs output_path =
     (case select_all db ''observations'' of
        Inl e \<Rightarrow> Inl e
      | Inr rs \<Rightarrow>
          (case DataFrame rs OBSERVATION_FIELD_NAMES of
             Inl e \<Rightarrow> Inl e
           | Inr df \<Rightarrow> to_csv df fs output_path))"

definition write_triples_list :: "triple list \<Rightarrow> filesystem \<Rightarrow> string \<Rightarrow> error + filesystem" where
  "write_triples_list triples fs output_path =
     to_csv (DataFrame_of_triples triples) fs output_path"

definition write_triples :: "store \<Rightarrow> filesystem \<Rightarrow> string \<Rightarrow> error + filesystem" where
  "write_triples db fs output_path =
     (case select_all db ''triples'' of
        Inl e \<Rightarrow> Inl e
      | Inr rs \<Rightarrow>
          (case map_result Triple rs of
             Inl e \<Rightarrow> Inl e
           | Inr triples \<Rightarrow> write_triples_list triples fs output_path))"

definition write_key_values :: "store \<Rightarrow> filesystem \<Rightarrow> string \<Rightarrow> error + filesystem" where
  "write_key_values db fs output_path =
     (case select_all db ''key_value_store'' of
        Inl e \<Rightarrow> Inl e
      | Inr rs \<Rightarrow>
          (case DataFrame rs [''lookup_key'', ''value''] of
             Inl e \<Rightarrow> Inl e
           | Inr df \<Rightarrow> to_csv df fs output_path))"

subsection \<open>pandas: reading a CSV file\<close>

text \<open>
  The tokenizer of \<^verbatim>\<open>pd.read_csv\<close> (the C engine) with the default dialect:
  the delimiter is the comma, the quote character the double quote, doubled inside a
  quoted field; a line ends with \<open>LF\<close>, \<open>CR\<close> or \<open>CR LF\<close>; empty lines and
  lines of blanks are skipped. It reads the bytes one at a time, in one of these states.
\<close>

datatype parser_state =
  START_RECORD
  | START_FIELD
  | IN_FIELD
  | IN_QUOTED_FIELD
  | QUOTE_IN_QUOTED_FIELD
  | EAT_CRNL
  | EAT_CRNL_NOP
  | WHITESPACE_LINE

text \<open>
  The tokenizer: its state, the field being read, the fields of the line being read,
  and the lines read so far.
\<close>

record tokenizer =
  state :: parser_state
  field :: string
  line :: "string list"
  lines :: "string list list"

definition push :: "char \<Rightarrow> tokenizer \<Rightarrow> tokenizer" where
  "push c t = t\<lparr>field := field t @ [c]\<rparr>"

definition end_field :: "tokenizer \<Rightarrow> tokenizer" where
  "end_field t = t\<lparr>line := line t @ [field t], field := []\<rparr>"

definition end_line :: "tokenizer \<Rightarrow> tokenizer" where
  "end_line t = t\<lparr>lines := lines t @ [line t], line := []\<rparr>"

definition is_blank :: "char \<Rightarrow> bool" where
  "is_blank c = (c = CHR '' '' \<or> c = CHR 0x09)"

definition start_field_char :: "tokenizer \<Rightarrow> char \<Rightarrow> tokenizer" where
  "start_field_char t c =
     (if c = LF then (end_line (end_field t))\<lparr>state := START_RECORD\<rparr>
      else if c = CR then (end_field t)\<lparr>state := EAT_CRNL\<rparr>
      else if c = CHR 0x22 then t\<lparr>state := IN_QUOTED_FIELD\<rparr>
      else if c = CHR '','' then (end_field t)\<lparr>state := START_FIELD\<rparr>
      else (push c t)\<lparr>state := IN_FIELD\<rparr>)"

definition in_field_char :: "tokenizer \<Rightarrow> char \<Rightarrow> tokenizer" where
  "in_field_char t c =
     (if c = LF then (end_line (end_field t))\<lparr>state := START_RECORD\<rparr>
      else if c = CR then (end_field t)\<lparr>state := EAT_CRNL\<rparr>
      else if c = CHR '','' then (end_field t)\<lparr>state := START_FIELD\<rparr>
      else (push c t)\<lparr>state := IN_FIELD\<rparr>)"

definition start_record_char :: "tokenizer \<Rightarrow> char \<Rightarrow> tokenizer" where
  "start_record_char t c =
     (if c = LF then t\<lparr>state := START_RECORD\<rparr>
      else if c = CR then t\<lparr>state := EAT_CRNL_NOP\<rparr>
      else if is_blank c then (push c t)\<lparr>state := WHITESPACE_LINE\<rparr>
      else start_field_char t c)"

text \<open>
  One byte. After a \<open>CR\<close> the next byte is an \<open>LF\<close> that belongs to the line end,
  or it is read again as the first byte of the next record. A line that started with
  blanks and turns out to hold something else is read again from its start, the blanks
  becoming the start of its first field.
\<close>

definition tokenizer_step :: "tokenizer \<Rightarrow> char \<Rightarrow> tokenizer" where
  "tokenizer_step t c =
     (case state t of
        START_RECORD \<Rightarrow> start_record_char t c
      | START_FIELD \<Rightarrow> start_field_char t c
      | IN_FIELD \<Rightarrow> in_field_char t c
      | IN_QUOTED_FIELD \<Rightarrow>
          if c = CHR 0x22 then t\<lparr>state := QUOTE_IN_QUOTED_FIELD\<rparr> else push c t
      | QUOTE_IN_QUOTED_FIELD \<Rightarrow>
          if c = CHR 0x22 then (push c t)\<lparr>state := IN_QUOTED_FIELD\<rparr>
          else in_field_char t c
      | EAT_CRNL \<Rightarrow>
          if c = LF then (end_line t)\<lparr>state := START_RECORD\<rparr>
          else if c = CHR '','' then (end_field (end_line t))\<lparr>state := START_FIELD\<rparr>
          else start_record_char (end_line t) c
      | EAT_CRNL_NOP \<Rightarrow>
          if c = LF \<or> c = CHR '','' then t\<lparr>state := START_RECORD\<rparr>
          else start_record_char t c
      | WHITESPACE_LINE \<Rightarrow>
          if c = LF then t\<lparr>field := [], state := START_RECORD\<rparr>
          else if c = CR then t\<lparr>field := [], state := EAT_CRNL_NOP\<rparr>
          else if is_blank c then push c t
          else in_field_char t c)"

text \<open>The end of the input: an open quoted field is an error, an open line is closed.\<close>

definition handle_eof :: "tokenizer \<Rightarrow> error + string list list" where
  "handle_eof t =
     (case state t of
        START_RECORD \<Rightarrow> Inr (lines t)
      | WHITESPACE_LINE \<Rightarrow> Inr (lines t)
      | EAT_CRNL_NOP \<Rightarrow> Inr (lines t)
      | IN_QUOTED_FIELD \<Rightarrow> Inl ParserError
      | EAT_CRNL \<Rightarrow> Inr (lines (end_line t))
      | _ \<Rightarrow> Inr (lines (end_line (end_field t))))"

definition tokenize_from :: "tokenizer \<Rightarrow> string \<Rightarrow> error + string list list" where
  "tokenize_from t bytes = handle_eof (foldl tokenizer_step t bytes)"

definition tokenize :: "string \<Rightarrow> error + string list list" where
  "tokenize bytes =
     tokenize_from \<lparr>state = START_RECORD, field = [], line = [], lines = []\<rparr> bytes"

text \<open>
  \<^verbatim>\<open>pd.read_csv(path, keep_default_na=False)\<close>: the file is opened and decoded
  and its lines are tokenized; a file with no line has no header, which is an
  \<open>EmptyDataError\<close>. What pandas then makes of the lines (the labels from the first
  one, the check of the field counts, the conversion of each column to a type, with no
  value read as missing) is a parameter.
\<close>

definition read_csv ::
    "(string list list \<Rightarrow> error + data_frame) \<Rightarrow> filesystem \<Rightarrow> string \<Rightarrow> error + data_frame" where
  "read_csv frame_of_lines fs path =
     (case fs path of
        None \<Rightarrow> Inl FileNotFoundError
      | Some Dir \<Rightarrow> Inl IsADirectoryError
      | Some (File bytes) \<Rightarrow>
          if \<not> utf8_valid bytes then Inl UnicodeDecodeError
          else (case tokenize bytes of
                  Inl e \<Rightarrow> Inl e
                | Inr ls \<Rightarrow> if ls = [] then Inl EmptyDataError else frame_of_lines ls))"

text \<open>
  \<^verbatim>\<open>df.to_dict(orient='records')\<close>: one dictionary per row, from the column
  labels to the values of the row.
\<close>

definition to_dict_records :: "data_frame \<Rightarrow> (string \<times> cell) list list" where
  "to_dict_records df = map (zip (columns df)) (body df)"

text \<open>
  \<^verbatim>\<open>Triple(**kwargs)\<close>: the keywords must be the names of the fields.
\<close>

definition Triple_of_kwargs :: "(string \<times> cell) list \<Rightarrow> error + triple" where
  "Triple_of_kwargs kwargs =
     (case map (map_of kwargs) TRIPLE_FIELD_NAMES of
        [Some s, Some p, Some oi, Some ov] \<Rightarrow>
          if list_all (\<lambda>k. k \<in> set TRIPLE_FIELD_NAMES) (map fst kwargs)
          then Inr \<lparr>subject_id = s, predicate = p, object_id = oi, object_value = ov\<rparr>
          else Inl TypeError
      | _ \<Rightarrow> Inl TypeError)"

definition read_triples_csv ::
    "(string list list \<Rightarrow> error + data_frame) \<Rightarrow> filesystem \<Rightarrow> string \<Rightarrow> error + triple list" where
  "read_triples_csv frame_of_lines fs path =
     (case read_csv frame_of_lines fs path of
        Inl e \<Rightarrow> Inl e
      | Inr df \<Rightarrow> map_result Triple_of_kwargs (to_dict_records df))"

text \<open>Writing a list of triples to a file and reading the file back.\<close>

definition write_then_read_triples ::
    "(string list list \<Rightarrow> error + data_frame) \<Rightarrow> triple list \<Rightarrow> error + triple list" where
  "write_then_read_triples frame_of_lines triples =
     (case write_triples_list triples Map.empty ''triples.csv'' of
        Inl e \<Rightarrow> Inl e
      | Inr fs \<Rightarrow> read_triples_csv frame_of_lines fs ''triples.csv'')"

text \<open>
  What pandas makes of the lines of a file none of whose columns reads as numbers or
  booleans: the first line gives the labels, and every field of the other lines stays
  the string it is, the empty string included, since with
  \<^verbatim>\<open>keep_default_na=False\<close> no string is read as a missing value.
\<close>

definition frame_of_text_lines :: "string list list \<Rightarrow> error + data_frame" where
  "frame_of_text_lines ls =
     (case ls of
        [] \<Rightarrow> Inl EmptyDataError
      | header # data \<Rightarrow> Inr \<lparr>columns = header, body = map (map Text) data\<rparr>)"

text \<open>A triple whose fields are texts.\<close>

definition text_triple :: "triple \<Rightarrow> bool" where
  "text_triple t = list_all (\<lambda>c. c \<noteq> Null \<and> utf8_valid (cell_str c)) (triple_values t)"

definition triples_quoted :: "triple list" where
  "triples_quoted =
     [\<lparr>subject_id = Text ''e1'', predicate = Text ''name'', object_id = Text [],
       object_value = Text (''a, '' @ [CHR 0x22] @ ''b'' @ [CHR 0x22, CR, LF] @ '' c'')\<rparr>,
      \<lparr>subject_id = Text '' '', predicate = Text [], object_id = Text ''NA'',
       object_value = Text []\<rparr>]"

subsection \<open>Dumping and restoring the whole database\<close>

text \<open>
  \<^verbatim>\<open>Connection.iterdump()\<close> for a database of tables: \<open>BEGIN TRANSACTION;\<close>,
  then for each table in the order of its name the statement that created it and one
  \<open>INSERT\<close> per row, the values written by SQLite's \<open>quote()\<close> (NULL, or the text in
  single quotes with its single quotes doubled), then \<open>COMMIT;\<close>.
\<close>

fun quote :: "cell \<Rightarrow> string" where
  "quote Null = ''NULL''"
| "quote (Text s) =
     [CHR 0x27] @ concat (map (\<lambda>c. if c = CHR 0x27 then [c, c] else [c]) s) @ [CHR 0x27]"

definition insert_statement :: "string \<Rightarrow> cell list \<Rightarrow> string" where
  "insert_statement name row =
     ''INSERT INTO '' @ [CHR 0x22]
       @ concat (map (\<lambda>c. if c = CHR 0x22 then [c, c] else [c]) name)
       @ [CHR 0x22] @ '' VALUES('' @ join '','' (map quote row) @ '');''"

definition table_dump :: "string \<times> table \<Rightarrow> string list" where
  "table_dump nt = (sql (snd nt) @ '';'') # map (insert_statement (fst nt)) (rows (snd nt))"

definition iterdump :: "store \<Rightarrow> string list" where
  "iterdump db =
     [''BEGIN TRANSACTION;''] @ concat (map table_dump (sort_key fst db)) @ [''COMMIT;'']"

text \<open>
  \<^verbatim>\<open>write_full_db_to_file\<close>: the output file is opened for writing in text mode
  and each line of the dump is written followed by a newline.
\<close>

definition write_full_db_to_file :: "store \<Rightarrow> filesystem \<Rightarrow> string \<Rightarrow> error + filesystem" where
  "write_full_db_to_file db fs output_path =
     write_file fs output_path (concat (map (\<lambda>line. line @ [LF]) (iterdump db)))"

text \<open>
  \<^verbatim>\<open>read_full_db_from_file\<close>: the input file is opened in text mode, read
  whole, and the text is handed to \<^verbatim>\<open>executescript\<close>, SQLite's interpreter,
  which is a parameter: a function of the database it runs on and of the script.
\<close>

definition read_full_db_from_file ::
    "(store \<Rightarrow> string \<Rightarrow> error + store) \<Rightarrow> store \<Rightarrow> filesystem \<Rightarrow> string \<Rightarrow> error + store" where
  "read_full_db_from_file executescript db fs input_path =
     (case read_text fs input_path of
        Inl e \<Rightarrow> Inl e
      | Inr script \<Rightarrow> executescript db script)"

text \<open>
  The round trip of the specification, \<open>restore(dump(S))\<close>: the store is dumped to a
  file and the file replayed into a fresh, empty store. Two stores hold the same data
  when they have the same tables, each with the same schema and the same set of rows.
\<close>

definition restore_dump :: "(store \<Rightarrow> string \<Rightarrow> error + store) \<Rightarrow> store \<Rightarrow> error + store" where
  "restore_dump executescript S =
     (case write_full_db_to_file S Map.empty ''dump.sql'' of
        Inl e \<Rightarrow> Inl e
      | Inr fs \<Rightarrow> read_full_db_from_file executescript [] fs ''dump.sql'')"

definition table_content :: "string \<times> table \<Rightarrow> string \<times> string \<times> cell list set" where
  "table_content nt = (fst nt, sql (snd nt), set (rows (snd nt)))"

definition same_rows :: "store \<Rightarrow> store \<Rightarrow> bool" where
  "same_rows S' S = (set (map table_content S') = set (map table_content S))"

definition round_trips :: "(store \<Rightarrow> string \<Rightarrow> error + store) \<Rightarrow> store \<Rightarrow> bool" where
  "round_trips executescript S =
     (case restore_dump executescript S of Inl e \<Rightarrow> False | Inr S' \<Rightarrow> same_rows S' S)"

text \<open>Concrete stores.\<close>

definition key_value_table :: "cell list list \<Rightarrow> string \<times> table" where
  "key_value_table rs =
     (''key_value_store'',
      \<lparr>sql = ''CREATE TABLE key_value_store (lookup_key varchar(255), value longtext)'',
       rows = rs\<rparr>)"

definition triples_table :: "cell list list \<Rightarrow> string \<times> table" where
  "triples_table rs =
     (''triples'',
      \<lparr>sql = ''CREATE TABLE triples (subject_id varchar(255), predicate varchar(255), ''
             @ ''object_id varchar(255), object_value TEXT)'',
       rows = rs\<rparr>)"

definition store_cr :: store where
  "store_cr = [key_value_table [[Text ''k'', Text (''a'' @ [CR] @ ''b'')]]]"

definition store_lf :: store where
  "store_lf = [key_value_table [[Text ''k'', Text (''a'' @ [LF] @ ''b'')]]]"

definition store_no_triples :: store where
  "store_no_triples =
     [triples_table [], key_value_table [[Text ''k'', Text ''v''], [Text ''j'', Null]]]"

definition store_two_triples :: store where
  "store_two_triples =
     [triples_table [[Text ''e1'', Text ''typeOf'', Text ''Country'', Text []],
                     [Text ''e1'', Text ''name'', Null, Text ''a, b'']]]"

definition observations_table :: "cell list list \<Rightarrow> string \<times> table" where
  "observations_table rs =
     (''observations'',
      \<lparr>sql = ''CREATE TABLE observations (entity varchar(255), variable varchar(255), ''
             @ ''date varchar(255), value varchar(255))'',
       rows = rs\<rparr>)"

definition four_field_names :: "string list" where
  "four_field_names = [''entity'', ''variable'', ''date'', ''value'']"

definition store_demo :: store where
  "store_demo =
     [key_value_table [[Text ''k'', Text ''v'']],
      observations_table [[Text ''geoId/06'', Text ''Count_Person'', Text ''2023'', Text ''5'']],
      triples_table [[Text ''e1'', Text ''name'', Null, Text ''a, b'']]]"

definition observations_csv :: string where
  "observations_csv =
     ''entity,variable,date,value'' @ [LF] @ ''geoId/06,Count_Person,2023,5'' @ [LF]"

definition triples_csv :: string where
  "triples_csv =
     ''subject_id,predicate,object_id,object_value'' @ [LF]
     @ ''e1,name,,'' @ [CHR 0x22] @ ''a, b'' @ [CHR 0x22] @ [LF]"

definition key_values_csv :: string where
  "key_values_csv = ''lookup_key,value'' @ [LF] @ ''k,v'' @ [LF]"

subsection \<open>Write mode\<close>

lemma step_globals: "globals (fst (step p a)) = globals p"
  by (cases a) simp_all

lemma step_results: "set (snd (step p a)) \<subseteq> {is_write_mode (globals p)}"
  by (cases a) simp_all

lemma run_actions_globals: "globals (fst (run_actions p as)) = globals p"
proof (induction as arbitrary: p)
  case Nil
  show ?case by simp
next
  case (Cons a as)
  have "globals (fst (run_actions (fst (step p a)) as)) = globals (fst (step p a))"
    by (rule Cons.IH)
  then show ?case
    by (simp add: step_globals split: prod.splits)
       (metis fst_conv step_globals)
qed

lemma run_actions_results:
  "set (snd (run_actions p as)) \<subseteq> {is_write_mode (globals p)}"
proof (induction as arbitrary: p)
  case Nil
  show ?case by simp
next
  case (Cons a as)
  obtain p' out where s: "step p a = (p', out)" by (cases "step p a")
  obtain p'' outs where r: "run_actions p' as = (p'', outs)" by (cases "run_actions p' as")
  have g: "globals p' = globals p" using step_globals [of p a] s by simp
  have "set out \<subseteq> {is_write_mode (globals p)}" using step_results [of p a] s by simp
  moreover have "set outs \<subseteq> {is_write_mode (globals p)}"
    using Cons.IH [of p'] r g by simp
  ultimately show ?case using s r by auto
qed

lemma is_write_mode_import:
  "is_write_mode (import_test_util env) = (env ''TEST_MODE'' = Some ''write'')"
  by (auto simp: is_write_mode_def import_test_util_def getenv_def split: option.splits)

text \<open>
  C8. The harness is in write mode exactly when the TEST\_MODE environment variable
  is set to the string "write": an unset variable and every other value give verify mode.
\<close>

theorem write_mode_iff_TEST_MODE_is_write:
  "is_write_mode (import_test_util env) = (env ''TEST_MODE'' = Some ''write'')"
  by (rule is_write_mode_import)

text \<open>
  C9. TEST\_MODE is read once, at import: whatever the process does to its environment
  afterwards, every call of \<^verbatim>\<open>is_write_mode()\<close> returns the boolean fixed by
  the variable's value at import, and that boolean is false for every value other than
  the exact string "write", the variable being unset included.
\<close>

theorem is_write_mode_fixed_at_import:
  "list_all (\<lambda>b. b = (env ''TEST_MODE'' = Some ''write''))
     (snd (run_actions (start_process env) as))"
proof -
  have "set (snd (run_actions (start_process env) as))
          \<subseteq> {is_write_mode (globals (start_process env))}"
    by (rule run_actions_results)
  then show ?thesis
    by (auto simp: list_all_iff start_process_def is_write_mode_import)
qed

subsection \<open>Comparing an actual file with its golden file\<close>

lemmas compare_files_defs =
  compare_files_def path_exists_def assertEqual_def read_text_def Let_def

lemma compare_files_existence_mismatch:
  "path_exists fs a \<noteq> path_exists fs e \<Longrightarrow> compare_files fs a e = Inl AssertionError"
  by (simp add: compare_files_def assertEqual_def)


lemma compare_files_both_files:
  "fs a = Some (File x) \<Longrightarrow> fs e = Some (File y) \<Longrightarrow>
   compare_files fs a e =
     (if \<not> utf8_valid x \<or> \<not> utf8_valid y then Inl UnicodeDecodeError
      else if universal_newlines x = universal_newlines y then Inr ()
      else Inl AssertionError)"
  by (simp add: compare_files_defs)

lemma compare_files_directory:
  "fs a = Some Dir \<or> fs e = Some Dir \<Longrightarrow> compare_files fs a e \<noteq> Inr ()"
  by (auto simp: compare_files_defs split: option.splits node.splits sum.splits)

text \<open>
  C2, as stated, fails: an actual file \<open>a,b CR LF\<close> and a golden file \<open>a,b LF\<close>
  differ in their bytes, and compare\_files passes, because both are read in text mode.
\<close>

theorem compare_files_bytes_counterexample:
  "compare_files fs_crlf ''actual.csv'' ''expected.csv'' = Inr ()
   \<and> \<not> same_bytes_or_both_absent fs_crlf ''actual.csv'' ''expected.csv''"
  by (simp add: compare_files_defs fs_crlf_def same_bytes_or_both_absent_def byte_in_def)

text \<open>
  C2, amended: compare\_files succeeds exactly when neither path exists, or both are
  regular files whose contents decode and are equal as texts read with universal
  newlines; and whenever exactly one of the two paths exists it fails with the
  test's failure exception, whatever the existing file holds.
\<close>

theorem compare_files_passes_iff_same_text:
  "(compare_files fs a e = Inr ()) = same_text_or_both_absent fs a e
   \<and> (path_exists fs a \<noteq> path_exists fs e \<longrightarrow> compare_files fs a e = Inl AssertionError)"
proof
  show "(compare_files fs a e = Inr ()) = same_text_or_both_absent fs a e"
  proof (cases "fs a")
    case None
    then show ?thesis
      by (cases "fs e")
         (simp_all add: compare_files_defs same_text_or_both_absent_def)
  next
    case (Some na)
    note a = Some
    show ?thesis
    proof (cases "fs e")
      case None
      with a show ?thesis
        by (simp add: compare_files_defs same_text_or_both_absent_def split: node.splits)
    next
      case (Some ne)
      show ?thesis
      proof (cases na)
        case Dir
        with a Some compare_files_directory [of fs a e] show ?thesis
          by (simp add: same_text_or_both_absent_def)
      next
        case (File x)
        note fx = File
        show ?thesis
        proof (cases ne)
          case Dir
          with a Some fx compare_files_directory [of fs a e] show ?thesis
            by (simp add: same_text_or_both_absent_def)
        next
          case (File y)
          with a Some fx show ?thesis
            by (auto simp: compare_files_both_files same_text_or_both_absent_def)
        qed
      qed
    qed
  qed
  show "path_exists fs a \<noteq> path_exists fs e \<longrightarrow> compare_files fs a e = Inl AssertionError"
    by (simp add: compare_files_existence_mismatch)
qed

theorem compare_files_passes_iff_same_text_witness:
  "path_exists fs_only_expected ''key_value_store.csv'' \<noteq>
     path_exists fs_only_expected ''expected.csv''
   \<and> compare_files fs_only_expected ''key_value_store.csv'' ''expected.csv''
       = Inl AssertionError
   \<and> \<not> same_text_or_both_absent fs_only_expected ''key_value_store.csv'' ''expected.csv''"
  using compare_files_passes_iff_same_text
          [of fs_only_expected "''key_value_store.csv''" "''expected.csv''"]
  by (simp add: fs_only_expected_def path_exists_def same_text_or_both_absent_def)




subsection \<open>The freeze scope of main\<close>

lemmas main_defs =
  main_def run_def log_def freeze_enter_def freeze_exit_def current_clock_def Let_def

lemma runner_runs_append: "runner_runs (xs @ ys) = runner_runs xs @ runner_runs ys"
  by (induction xs rule: runner_runs.induct) simp_all

lemma run_freezes: "freezes (snd (run runner fl st)) = freezes st"
  by (simp add: run_def log_def Let_def split: prod.splits)

lemma run_gzip_time: "gzip_time (snd (run runner fl st)) = gzip_time st"
  by (simp add: run_def log_def Let_def split: prod.splits)


lemma frozen_start_fields:
  "freezes (frozen_start i fl st) = (i, FREEZE_TIME_IGNORE_LIST) # freezes st"
  "gzip_time (frozen_start i fl st) = gzip_time st"
  "runner_runs (trace (frozen_start i fl st)) = runner_runs (trace st)"
  "current_clock (frozen_start i fl st) = Frozen i FREEZE_TIME_IGNORE_LIST"
  by (simp_all add: frozen_start_def freeze_enter_def log_def runner_runs_append
      current_clock_def)

lemma main_frozen:
  assumes "freeze_time fl" and "parse (frozen_time fl) = Some i"
  shows "main parse runner fl st =
           (fst (run runner fl (frozen_start i fl st)),
            freeze_exit (snd (run runner fl (frozen_start i fl st))))"
  using assms by (simp add: main_def frozen_start_def Let_def case_prod_beta)

lemma main_no_date:
  assumes "freeze_time fl" and "parse (frozen_time fl) = None"
  shows "main parse runner fl st =
           (Some ParserError,
            log (Logging_info (''Running with time frozen at: '' @ frozen_time fl)) st)"
  using assms by (simp add: main_def Let_def)

lemma main_unfrozen: "\<not> freeze_time fl \<Longrightarrow> main parse runner fl st = run runner fl st"
  by (simp add: main_def)

lemma main_freezes: "freezes (snd (main parse runner fl st)) = freezes st"
proof (cases "freeze_time fl")
  case False
  then show ?thesis by (simp add: main_unfrozen run_freezes)
next
  case True
  show ?thesis
  proof (cases "parse (frozen_time fl)")
    case None
    with True show ?thesis by (simp add: main_no_date log_def)
  next
    case (Some i)
    with True show ?thesis
      by (simp add: main_frozen freeze_exit_def run_freezes frozen_start_fields)
  qed
qed

lemma main_gzip_time: "gzip_time (snd (main parse runner fl st)) = gzip_time st"
proof (cases "freeze_time fl")
  case False
  then show ?thesis by (simp add: main_unfrozen run_gzip_time)
next
  case True
  show ?thesis
  proof (cases "parse (frozen_time fl)")
    case None
    with True show ?thesis by (simp add: main_no_date log_def)
  next
    case (Some i)
    with True show ?thesis
      by (simp add: main_frozen freeze_exit_def run_gzip_time frozen_start_fields)
  qed
qed



text \<open>
  C6, as stated, fails for the time source of gzip output: use\_fake\_gzip\_time
  rebinds \<^verbatim>\<open>gzip.time\<close> and nothing rebinds it back. After a frozen run of main
  has completed, gzip still reads the fake timestamp 0 and not the real clock.
\<close>

theorem gzip_time_not_restored_counterexample:
  "gzip_time (snd (main parse_iso_date runner_ok flags_frozen
                     (use_fake_gzip_time 0 fresh_process))) = FakeGzipTime 0
   \<and> gzip_time_now (gzip_time (snd (main parse_iso_date runner_ok flags_frozen
                     (use_fake_gzip_time 0 fresh_process)))) 1700000000 = 0"
  by (simp add: main_gzip_time use_fake_gzip_time_def)

text \<open>
  C6, amended: the clock override that main installs with freeze\_time is torn down
  at the end of its \<open>with\<close> scope whether the Runner returns or raises: the active
  freezes after main are those before it, so a process that had none observes the real
  clock again. The binding of \<^verbatim>\<open>gzip.time\<close> has no scope: main leaves it as it
  finds it, and after use\_fake\_gzip\_time it stays the fake one.
\<close>

theorem freeze_scope_torn_down:
  "freezes (snd (main parse runner fl st)) = freezes st
   \<and> (freezes st = [] \<longrightarrow> current_clock (snd (main parse runner fl st)) = Real_clock)
   \<and> gzip_time (snd (main parse runner fl (use_fake_gzip_time timestamp st)))
       = FakeGzipTime timestamp"
  by (simp add: main_freezes main_gzip_time current_clock_def use_fake_gzip_time_def)

theorem freeze_scope_torn_down_witness:
  "freezes fresh_process = []
   \<and> fst (main parse_iso_date runner_raises flags_frozen fresh_process) = Some RunnerError
   \<and> runner_runs (trace (snd (main parse_iso_date runner_raises flags_frozen fresh_process)))
       = [(runner_args_of flags_frozen, Frozen ''2023-01-01'' [''transformers''])]
   \<and> current_clock (snd (main parse_iso_date runner_raises flags_frozen fresh_process))
       = Real_clock"
  using freeze_scope_torn_down [of parse_iso_date runner_raises flags_frozen fresh_process]
  by (simp add: main_defs fresh_process_def flags_frozen_def parse_iso_date_def is_digit_def
      runner_raises_def FREEZE_TIME_IGNORE_LIST_def runner_args_of_def)




subsection \<open>Dump and restore\<close>

lemma write_file_again:
  "write_file fs path bytes = Inr fs' \<Longrightarrow> write_file fs' path bytes = Inr fs'"
  by (auto simp: write_file_def split: if_splits)

lemma write_file_content:
  "write_file fs path bytes = Inr fs' \<Longrightarrow> fs' path = Some (File bytes)"
  by (auto simp: write_file_def split: if_splits)

lemma dump_text_store_cr:
  "write_full_db_to_file store_cr Map.empty ''dump.sql''
     = Inr [''dump.sql'' \<mapsto> File (concat (map (\<lambda>line. line @ [LF]) (iterdump store_cr)))]"
  by (simp add: write_full_db_to_file_def write_file_def)

lemma dump_text_store_lf:
  "write_full_db_to_file store_lf Map.empty ''dump.sql''
     = Inr [''dump.sql'' \<mapsto> File (concat (map (\<lambda>line. line @ [LF]) (iterdump store_lf)))]"
  by (simp add: write_full_db_to_file_def write_file_def)

lemma iterdump_store_cr:
  "iterdump store_cr =
     [''BEGIN TRANSACTION;'',
      ''CREATE TABLE key_value_store (lookup_key varchar(255), value longtext);'',
      ''INSERT INTO '' @ [CHR 0x22] @ ''key_value_store'' @ [CHR 0x22] @ '' VALUES(''
        @ [CHR 0x27] @ ''k'' @ [CHR 0x27] @ '','' @ [CHR 0x27] @ ''a'' @ [CR] @ ''b''
        @ [CHR 0x27] @ '');'',
      ''COMMIT;'']"
  by (simp add: iterdump_def store_cr_def key_value_table_def table_dump_def
      insert_statement_def)

lemma iterdump_store_lf:
  "iterdump store_lf =
     [''BEGIN TRANSACTION;'',
      ''CREATE TABLE key_value_store (lookup_key varchar(255), value longtext);'',
      ''INSERT INTO '' @ [CHR 0x22] @ ''key_value_store'' @ [CHR 0x22] @ '' VALUES(''
        @ [CHR 0x27] @ ''k'' @ [CHR 0x27] @ '','' @ [CHR 0x27] @ ''a'' @ [LF] @ ''b''
        @ [CHR 0x27] @ '');'',
      ''COMMIT;'']"
  by (simp add: iterdump_def store_lf_def key_value_table_def table_dump_def
      insert_statement_def)

lemma script_read_back_same:
  "read_text [''dump.sql'' \<mapsto> File (concat (map (\<lambda>line. line @ [LF]) (iterdump store_cr)))]
     ''dump.sql''
   = read_text [''dump.sql'' \<mapsto> File (concat (map (\<lambda>line. line @ [LF]) (iterdump store_lf)))]
     ''dump.sql''"
  by (simp add: iterdump_store_cr iterdump_store_lf read_text_def byte_in_def)

lemma restore_dump_cr_lf:
  "restore_dump executescript store_cr = restore_dump executescript store_lf"
  by (simp only: restore_dump_def dump_text_store_cr dump_text_store_lf sum.case
      read_full_db_from_file_def script_read_back_same)

lemma store_cr_lf_differ: "\<not> same_rows store_cr store_lf"
  by (simp add: same_rows_def store_cr_def store_lf_def table_content_def key_value_table_def)

lemma same_rows_trans_sym: "same_rows S' S1 \<Longrightarrow> same_rows S' S2 \<Longrightarrow> same_rows S1 S2"
  by (simp add: same_rows_def)

text \<open>
  C1 at a store whose key-value table holds the value \<open>a CR b\<close>: the dump file keeps
  the \<open>CR\<close>, but it is read back in text mode, so the script that is replayed is the
  one a store holding \<open>a LF b\<close> would give. Whatever \<open>executescript\<close> computes, the
  restored stores of the two are the same, while their row sets differ: the round trip
  cannot hold for both.
\<close>

theorem dump_restore_carriage_return:
  "(\<forall>executescript. restore_dump executescript store_cr = restore_dump executescript store_lf)
   \<and> \<not> same_rows store_cr store_lf
   \<and> (\<forall>executescript. \<not> (round_trips executescript store_cr
                            \<and> round_trips executescript store_lf))"
proof (intro conjI allI)
  fix executescript :: "store \<Rightarrow> string \<Rightarrow> error + store"
  show "restore_dump executescript store_cr = restore_dump executescript store_lf"
    by (rule restore_dump_cr_lf)
  show "\<not> (round_trips executescript store_cr \<and> round_trips executescript store_lf)"
  proof
    assume both: "round_trips executescript store_cr \<and> round_trips executescript store_lf"
    then obtain S' where r: "restore_dump executescript store_cr = Inr S'"
      and cr: "same_rows S' store_cr"
      by (auto simp: round_trips_def split: sum.splits)
    from both r have "same_rows S' store_lf"
      by (simp add: round_trips_def restore_dump_cr_lf [symmetric])
    with cr have "same_rows store_cr store_lf" by (rule same_rows_trans_sym)
    with store_cr_lf_differ show False by simp
  qed
next
  show "\<not> same_rows store_cr store_lf" by (rule store_cr_lf_differ)
qed

subsection \<open>The CSV exports\<close>

lemma to_csv_again: "to_csv df fs out = Inr fs' \<Longrightarrow> to_csv df fs' out = Inr fs'"
  by (simp add: to_csv_def write_file_again)

lemma to_csv_content: "to_csv df fs out = Inr fs' \<Longrightarrow> fs' out = Some (File (csv_text df))"
  by (simp add: to_csv_def write_file_content)

lemma write_observations_frame:
  "write_observations names db fs out = Inr fs' \<Longrightarrow>
   \<exists>rs df. select_all db ''observations'' = Inr rs \<and> DataFrame rs names = Inr df
        \<and> to_csv df fs out = Inr fs'"
  by (auto simp: write_observations_def split: sum.splits)

lemma write_key_values_frame:
  "write_key_values db fs out = Inr fs' \<Longrightarrow>
   \<exists>rs df. select_all db ''key_value_store'' = Inr rs
        \<and> DataFrame rs [''lookup_key'', ''value''] = Inr df \<and> to_csv df fs out = Inr fs'"
  by (auto simp: write_key_values_def split: sum.splits)

lemma write_triples_frame:
  "write_triples db fs out = Inr fs' \<Longrightarrow>
   \<exists>rs triples. select_all db ''triples'' = Inr rs \<and> map_result Triple rs = Inr triples
        \<and> to_csv (DataFrame_of_triples triples) fs out = Inr fs'"
  by (auto simp: write_triples_def write_triples_list_def split: sum.splits)

lemma write_observations_again:
  assumes "write_observations names db fs out = Inr fs'"
  shows "write_observations names db fs' out = Inr fs'"
proof -
  from write_observations_frame [OF assms] obtain rs df where
    "select_all db ''observations'' = Inr rs" "DataFrame rs names = Inr df"
    "to_csv df fs out = Inr fs'" by blast
  then show ?thesis by (simp add: write_observations_def to_csv_again)
qed

lemma write_key_values_again:
  assumes "write_key_values db fs out = Inr fs'"
  shows "write_key_values db fs' out = Inr fs'"
proof -
  from write_key_values_frame [OF assms] obtain rs df where
    "select_all db ''key_value_store'' = Inr rs"
    "DataFrame rs [''lookup_key'', ''value''] = Inr df"
    "to_csv df fs out = Inr fs'" by blast
  then show ?thesis by (simp add: write_key_values_def to_csv_again)
qed

lemma write_triples_again:
  assumes "write_triples db fs out = Inr fs'"
  shows "write_triples db fs' out = Inr fs'"
proof -
  from write_triples_frame [OF assms] obtain rs triples where
    "select_all db ''triples'' = Inr rs" "map_result Triple rs = Inr triples"
    "to_csv (DataFrame_of_triples triples) fs out = Inr fs'" by blast
  then show ?thesis by (simp add: write_triples_def write_triples_list_def to_csv_again)
qed

lemma write_observations_same_bytes:
  assumes "write_observations names db fs1 out1 = Inr fs1'"
    and "write_observations names db fs2 out2 = Inr fs2'"
  shows "fs1' out1 = fs2' out2"
proof -
  from write_observations_frame [OF assms(1)] obtain rs df where
    a: "select_all db ''observations'' = Inr rs" "DataFrame rs names = Inr df"
    "to_csv df fs1 out1 = Inr fs1'" by blast
  from write_observations_frame [OF assms(2)] a obtain
    b: "to_csv df fs2 out2 = Inr fs2'" by auto
  from a(3) b show ?thesis by (simp add: to_csv_content)
qed

lemma write_key_values_same_bytes:
  assumes "write_key_values db fs1 out1 = Inr fs1'"
    and "write_key_values db fs2 out2 = Inr fs2'"
  shows "fs1' out1 = fs2' out2"
proof -
  from write_key_values_frame [OF assms(1)] obtain rs df where
    a: "select_all db ''key_value_store'' = Inr rs"
    "DataFrame rs [''lookup_key'', ''value''] = Inr df"
    "to_csv df fs1 out1 = Inr fs1'" by blast
  from write_key_values_frame [OF assms(2)] a obtain
    b: "to_csv df fs2 out2 = Inr fs2'" by auto
  from a(3) b show ?thesis by (simp add: to_csv_content)
qed

lemma write_triples_same_bytes:
  assumes "write_triples db fs1 out1 = Inr fs1'"
    and "write_triples db fs2 out2 = Inr fs2'"
  shows "fs1' out1 = fs2' out2"
proof -
  from write_triples_frame [OF assms(1)] obtain rs triples where
    a: "select_all db ''triples'' = Inr rs" "map_result Triple rs = Inr triples"
    "to_csv (DataFrame_of_triples triples) fs1 out1 = Inr fs1'" by blast
  from write_triples_frame [OF assms(2)] a obtain
    b: "to_csv (DataFrame_of_triples triples) fs2 out2 = Inr fs2'" by auto
  from a(3) b show ?thesis by (simp add: to_csv_content)
qed

text \<open>
  C4. For a fixed store, an export that has succeeded succeeds again when it is run a
  second time against the same store and leaves every file as the first run left it;
  and two successful runs of an export against the same store, from any two file
  systems and to any two output paths, write the same bytes.
\<close>

theorem export_twice_same_bytes:
  "(write_observations names db fs out = Inr fs' \<longrightarrow>
      write_observations names db fs' out = Inr fs')
   \<and> (write_triples db fs out = Inr fs' \<longrightarrow> write_triples db fs' out = Inr fs')
   \<and> (write_key_values db fs out = Inr fs' \<longrightarrow> write_key_values db fs' out = Inr fs')
   \<and> (write_observations names db fs1 out1 = Inr fs1'
        \<and> write_observations names db fs2 out2 = Inr fs2' \<longrightarrow> fs1' out1 = fs2' out2)
   \<and> (write_triples db fs1 out1 = Inr fs1'
        \<and> write_triples db fs2 out2 = Inr fs2' \<longrightarrow> fs1' out1 = fs2' out2)
   \<and> (write_key_values db fs1 out1 = Inr fs1'
        \<and> write_key_values db fs2 out2 = Inr fs2' \<longrightarrow> fs1' out1 = fs2' out2)"
  using write_observations_again [of names db fs out fs']
    write_triples_again [of db fs out fs']
    write_key_values_again [of db fs out fs']
    write_observations_same_bytes [of names db fs1 out1 fs1' fs2 out2 fs2']
    write_triples_same_bytes [of db fs1 out1 fs1' fs2 out2 fs2']
    write_key_values_same_bytes [of db fs1 out1 fs1' fs2 out2 fs2']
  by blast

lemmas export_defs =
  select_all_def DataFrame_def pad_row_def to_csv_def write_file_def csv_text_def csv_row_def
  quote_field_def needs_quoting_def escape_quotes_def

lemma write_observations_demo:
  "fs out \<noteq> Some Dir \<Longrightarrow>
   write_observations four_field_names store_demo fs out
     = Inr (fs(out \<mapsto> File observations_csv))"
  by (simp add: write_observations_def export_defs store_demo_def key_value_table_def
      observations_table_def triples_table_def four_field_names_def observations_csv_def)

lemma write_triples_demo:
  "fs out \<noteq> Some Dir \<Longrightarrow>
   write_triples store_demo fs out = Inr (fs(out \<mapsto> File triples_csv))"
  by (simp add: write_triples_def write_triples_list_def export_defs store_demo_def
      key_value_table_def observations_table_def triples_table_def Triple_def
      DataFrame_of_triples_def TRIPLE_FIELD_NAMES_def triple_values_def triples_csv_def)

lemma write_key_values_demo:
  "fs out \<noteq> Some Dir \<Longrightarrow>
   write_key_values store_demo fs out = Inr (fs(out \<mapsto> File key_values_csv))"
  by (simp add: write_key_values_def export_defs store_demo_def key_value_table_def
      observations_table_def triples_table_def key_values_csv_def)

theorem export_twice_same_bytes_witness:
  "write_observations four_field_names store_demo Map.empty ''o.csv''
     = Inr [''o.csv'' \<mapsto> File observations_csv]
   \<and> write_observations four_field_names store_demo [''o.csv'' \<mapsto> File observations_csv] ''o.csv''
     = Inr [''o.csv'' \<mapsto> File observations_csv]
   \<and> write_observations four_field_names store_demo fs_differ ''copy.csv''
     = Inr (fs_differ(''copy.csv'' \<mapsto> File observations_csv))
   \<and> write_triples store_demo Map.empty ''t.csv'' = Inr [''t.csv'' \<mapsto> File triples_csv]
   \<and> write_triples store_demo [''t.csv'' \<mapsto> File triples_csv] ''t.csv''
     = Inr [''t.csv'' \<mapsto> File triples_csv]
   \<and> write_triples store_demo fs_differ ''copy.csv''
     = Inr (fs_differ(''copy.csv'' \<mapsto> File triples_csv))
   \<and> write_key_values store_demo Map.empty ''k.csv'' = Inr [''k.csv'' \<mapsto> File key_values_csv]
   \<and> write_key_values store_demo [''k.csv'' \<mapsto> File key_values_csv] ''k.csv''
     = Inr [''k.csv'' \<mapsto> File key_values_csv]
   \<and> write_key_values store_demo fs_differ ''copy.csv''
     = Inr (fs_differ(''copy.csv'' \<mapsto> File key_values_csv))"
  using export_twice_same_bytes
          [of four_field_names store_demo Map.empty "''o.csv''"
              "[''o.csv'' \<mapsto> File observations_csv]"
              Map.empty "''o.csv''" "[''o.csv'' \<mapsto> File observations_csv]"
              fs_differ "''copy.csv''" "fs_differ(''copy.csv'' \<mapsto> File observations_csv)"]
        export_twice_same_bytes
          [of four_field_names store_demo Map.empty "''t.csv''"
              "[''t.csv'' \<mapsto> File triples_csv]"
              Map.empty "''t.csv''" "[''t.csv'' \<mapsto> File triples_csv]"
              fs_differ "''copy.csv''" "fs_differ(''copy.csv'' \<mapsto> File triples_csv)"]
        export_twice_same_bytes
          [of four_field_names store_demo Map.empty "''k.csv''"
              "[''k.csv'' \<mapsto> File key_values_csv]"
              Map.empty "''k.csv''" "[''k.csv'' \<mapsto> File key_values_csv]"
              fs_differ "''copy.csv''" "fs_differ(''copy.csv'' \<mapsto> File key_values_csv)"]
  by (simp add: write_observations_demo write_triples_demo write_key_values_demo
      fs_differ_def)

text \<open>
  C5 at a store whose triples table is empty: write\_triples builds the frame from the
  list of triples alone, so with no triple there is no column, and the file it writes
  is one empty line, without the names of the fields. write\_key\_values, which names
  its columns, writes the header for an empty table.
\<close>

theorem write_triples_empty_table:
  "write_triples store_no_triples Map.empty ''triples.csv''
     = Inr [''triples.csv'' \<mapsto> File [LF]]
   \<and> write_key_values [key_value_table []] Map.empty ''key_value_store.csv''
     = Inr [''key_value_store.csv'' \<mapsto> File (''lookup_key,value'' @ [LF])]"
  by (simp add: write_triples_def write_triples_list_def write_key_values_def export_defs
      store_no_triples_def key_value_table_def triples_table_def DataFrame_of_triples_def)

subsection \<open>The reader inverts the writer\<close>

text \<open>
  The tokenizer of the CSV reader, run on the records the CSV writer wrote, gives the
  records back, for records of two fields or more.
\<close>

lemmas step_defs = tokenizer_step_def start_record_char_def
  start_field_char_def in_field_char_def push_def end_field_def end_line_def

lemma plain_in_field:
  "state t = IN_FIELD \<Longrightarrow> \<not> needs_quoting s \<Longrightarrow>
   foldl tokenizer_step t s = t\<lparr>field := field t @ s\<rparr>"
proof (induction s arbitrary: t)
  case Nil
  then show ?case by simp
next
  case (Cons c s)
  from Cons.prems have c: "c \<noteq> LF" "c \<noteq> CR" "c \<noteq> CHR '',''" "c \<noteq> CHR 0x22"
    and s: "\<not> needs_quoting s"
    by (auto simp: needs_quoting_def)
  have st: "tokenizer_step t c = t\<lparr>field := field t @ [c]\<rparr>"
    using Cons.prems(1) c by (simp add: step_defs)
  have "state (t\<lparr>field := field t @ [c]\<rparr>) = IN_FIELD" using Cons.prems(1) by simp
  from Cons.IH [OF this s] st show ?case by simp
qed

lemma quoted_body:
  "state t = IN_QUOTED_FIELD \<Longrightarrow>
   foldl tokenizer_step t (escape_quotes s) = t\<lparr>field := field t @ s\<rparr>"
proof (induction s arbitrary: t)
  case Nil
  then show ?case by (simp add: escape_quotes_def)
next
  case (Cons c s)
  have st: "foldl tokenizer_step t (if c = CHR 0x22 then [c, c] else [c])
              = t\<lparr>field := field t @ [c]\<rparr>"
    using Cons.prems by (simp add: step_defs)
  have e: "escape_quotes (c # s) = (if c = CHR 0x22 then [c, c] else [c]) @ escape_quotes s"
    by (simp add: escape_quotes_def)
  have "state (t\<lparr>field := field t @ [c]\<rparr>) = IN_QUOTED_FIELD" using Cons.prems by simp
  from Cons.IH [OF this] show ?case
    unfolding e foldl_append st by simp
qed

lemma quote_field_quoted:
  "needs_quoting s \<Longrightarrow> quote_field s = CHR 0x22 # escape_quotes s @ [CHR 0x22]"
  by (simp add: quote_field_def)

lemma quote_field_plain: "\<not> needs_quoting s \<Longrightarrow> quote_field s = s"
  by (simp add: quote_field_def)

lemma needs_quoting_Cons:
  "needs_quoting (c # s) = (c = CHR '','' \<or> c = CHR 0x22 \<or> c = CR \<or> c = LF \<or> needs_quoting s)"
  by (auto simp: needs_quoting_def)

lemma blank_line_prefix:
  "state t = WHITESPACE_LINE \<Longrightarrow> \<not> needs_quoting s \<Longrightarrow>
   foldl tokenizer_step t s =
     t\<lparr>field := field t @ s,
       state := (if list_all is_blank s then WHITESPACE_LINE else IN_FIELD)\<rparr>"
proof (induction s arbitrary: t)
  case Nil
  then show ?case by simp
next
  case (Cons c s)
  from Cons.prems have c: "c \<noteq> LF" "c \<noteq> CR" "c \<noteq> CHR '',''" "c \<noteq> CHR 0x22"
    and s: "\<not> needs_quoting s"
    by (auto simp: needs_quoting_Cons)
  show ?case
  proof (cases "is_blank c")
    case True
    have st: "tokenizer_step t c = t\<lparr>field := field t @ [c]\<rparr>"
      using Cons.prems(1) c True by (simp add: step_defs)
    have "state (t\<lparr>field := field t @ [c]\<rparr>) = WHITESPACE_LINE" using Cons.prems(1) by simp
    from Cons.IH [OF this s] st True show ?thesis by simp
  next
    case False
    have st: "tokenizer_step t c = t\<lparr>field := field t @ [c], state := IN_FIELD\<rparr>"
      using Cons.prems(1) c False by (simp add: step_defs)
    have "state (t\<lparr>field := field t @ [c], state := IN_FIELD\<rparr>) = IN_FIELD" by simp
    from plain_in_field [OF this s] st False show ?thesis by simp
  qed
qed

lemma quoted_field_then:
  assumes "state t = START_FIELD \<or> state t = START_RECORD" and "field t = []"
    and "d = CHR '','' \<or> d = LF"
  shows "foldl tokenizer_step t (CHR 0x22 # escape_quotes s @ [CHR 0x22, d])
           = in_field_char (t\<lparr>field := s\<rparr>) d"
proof -
  have 1: "tokenizer_step t (CHR 0x22) = t\<lparr>state := IN_QUOTED_FIELD\<rparr>"
    using assms(1) by (auto simp: step_defs is_blank_def)
  have 2: "foldl tokenizer_step (t\<lparr>state := IN_QUOTED_FIELD\<rparr>) (escape_quotes s)
             = t\<lparr>state := IN_QUOTED_FIELD, field := s\<rparr>"
    using quoted_body [of "t\<lparr>state := IN_QUOTED_FIELD\<rparr>" s] assms(2) by simp
  have 3: "tokenizer_step (t\<lparr>state := IN_QUOTED_FIELD, field := s\<rparr>) (CHR 0x22)
             = t\<lparr>state := QUOTE_IN_QUOTED_FIELD, field := s\<rparr>"
    by (simp add: step_defs)
  have 4: "tokenizer_step (t\<lparr>state := QUOTE_IN_QUOTED_FIELD, field := s\<rparr>) d
             = in_field_char (t\<lparr>field := s\<rparr>) d"
    using assms(3) by (auto simp: step_defs)
  show ?thesis by (simp add: 1 2 3 4)
qed

lemma field_from_start_field:
  assumes "state t = START_FIELD" and "field t = []" and "d = CHR '','' \<or> d = LF"
  shows "foldl tokenizer_step t (quote_field s @ [d]) = in_field_char (t\<lparr>field := s\<rparr>) d"
proof (cases "needs_quoting s")
  case True
  then show ?thesis using quoted_field_then [of t d s] assms
    by (simp add: quote_field_quoted)
next
  case False
  show ?thesis
  proof (cases s)
    case Nil
    then show ?thesis using assms False by (auto simp: quote_field_plain step_defs)
  next
    case (Cons c s')
    from False Cons have c: "c \<noteq> LF" "c \<noteq> CR" "c \<noteq> CHR '',''" "c \<noteq> CHR 0x22"
      and s': "\<not> needs_quoting s'"
      by (auto simp: needs_quoting_Cons)
    have 1: "tokenizer_step t c = t\<lparr>field := [c], state := IN_FIELD\<rparr>"
      using assms(1,2) c by (simp add: step_defs)
    have 2: "foldl tokenizer_step (t\<lparr>field := [c], state := IN_FIELD\<rparr>) s'
               = t\<lparr>field := c # s', state := IN_FIELD\<rparr>"
      using plain_in_field [of "t\<lparr>field := [c], state := IN_FIELD\<rparr>" s'] s' by simp
    have 3: "tokenizer_step (t\<lparr>field := c # s', state := IN_FIELD\<rparr>) d
               = in_field_char (t\<lparr>field := c # s'\<rparr>) d"
      using assms(3) by (auto simp: step_defs)
    show ?thesis using False Cons by (simp add: quote_field_plain 1 2 3)
  qed
qed

lemma first_field_then_comma:
  assumes "state t = START_RECORD" and "field t = []"
  shows "foldl tokenizer_step t (quote_field s @ '','')
           = in_field_char (t\<lparr>field := s\<rparr>) (CHR '','')"
proof (cases "needs_quoting s")
  case True
  then show ?thesis using quoted_field_then [of t "CHR '',''" s] assms
    by (simp add: quote_field_quoted)
next
  case False
  show ?thesis
  proof (cases s)
    case Nil
    then show ?thesis using assms False
      by (auto simp: quote_field_plain step_defs is_blank_def)
  next
    case (Cons c s')
    from False Cons have c: "c \<noteq> LF" "c \<noteq> CR" "c \<noteq> CHR '',''" "c \<noteq> CHR 0x22"
      and s': "\<not> needs_quoting s'"
      by (auto simp: needs_quoting_Cons)
    show ?thesis
    proof (cases "is_blank c")
      case True
      have 1: "tokenizer_step t c = t\<lparr>field := [c], state := WHITESPACE_LINE\<rparr>"
        using assms c True by (simp add: step_defs)
      have 2: "foldl tokenizer_step (t\<lparr>field := [c], state := WHITESPACE_LINE\<rparr>) s'
                 = t\<lparr>field := c # s',
                     state := (if list_all is_blank s' then WHITESPACE_LINE else IN_FIELD)\<rparr>"
        using blank_line_prefix [of "t\<lparr>field := [c], state := WHITESPACE_LINE\<rparr>" s'] s'
        by simp
      have 3: "tokenizer_step (t\<lparr>field := c # s',
                     state := (if list_all is_blank s' then WHITESPACE_LINE else IN_FIELD)\<rparr>)
                  (CHR '','')
               = in_field_char (t\<lparr>field := c # s'\<rparr>) (CHR '','')"
        by (auto simp: step_defs is_blank_def)
      show ?thesis using False Cons by (simp add: quote_field_plain 1 2 3)
    next
      case nb: False
      have 1: "tokenizer_step t c = t\<lparr>field := [c], state := IN_FIELD\<rparr>"
        using assms c nb by (simp add: step_defs)
      have 2: "foldl tokenizer_step (t\<lparr>field := [c], state := IN_FIELD\<rparr>) s'
                 = t\<lparr>field := c # s', state := IN_FIELD\<rparr>"
        using plain_in_field [of "t\<lparr>field := [c], state := IN_FIELD\<rparr>" s'] s' by simp
      have 3: "tokenizer_step (t\<lparr>field := c # s', state := IN_FIELD\<rparr>) (CHR '','')
                 = in_field_char (t\<lparr>field := c # s'\<rparr>) (CHR '','')"
        by (auto simp: step_defs)
      show ?thesis using False Cons by (simp add: quote_field_plain 1 2 3)
    qed
  qed
qed

lemma rest_of_record:
  "fs \<noteq> [] \<Longrightarrow> state t = START_FIELD \<Longrightarrow> field t = [] \<Longrightarrow>
   foldl tokenizer_step t (join '','' (map quote_field fs) @ [LF])
     = t\<lparr>lines := lines t @ [line t @ fs], line := [], state := START_RECORD\<rparr>"
proof (induction fs arbitrary: t)
  case Nil
  then show ?case by simp
next
  case (Cons f fs)
  show ?case
  proof (cases fs)
    case Nil
    have "foldl tokenizer_step t (quote_field f @ [LF]) = in_field_char (t\<lparr>field := f\<rparr>) LF"
      using Cons.prems by (intro field_from_start_field) simp_all
    then show ?thesis using Nil Cons.prems
      by (simp add: in_field_char_def end_field_def end_line_def)
  next
    case (Cons g gs)
    let ?t = "t\<lparr>line := line t @ [f], field := [], state := START_FIELD\<rparr>"
    have 1: "foldl tokenizer_step t (quote_field f @ '','') = ?t"
      using field_from_start_field [of t "CHR '',''" f] Cons.prems
      by (simp add: in_field_char_def end_field_def)
    have 2: "foldl tokenizer_step ?t (join '','' (map quote_field fs) @ [LF])
               = ?t\<lparr>lines := lines ?t @ [line ?t @ fs], line := [], state := START_RECORD\<rparr>"
      using Cons by (intro Cons.IH) simp_all
    have "join '','' (map quote_field (f # fs)) @ [LF]
            = (quote_field f @ '','') @ (join '','' (map quote_field fs) @ [LF])"
      using Cons by simp
    then show ?thesis using 1 2 Cons.prems by (simp del: join.simps)
  qed
qed

lemma whole_record:
  assumes "2 \<le> length r" and "state t = START_RECORD" and "field t = []" and "line t = []"
  shows "foldl tokenizer_step t (csv_row r) = t\<lparr>lines := lines t @ [r]\<rparr>"
proof -
  from assms(1) obtain f g gs where r: "r = f # g # gs"
    by (cases r; cases "tl r") auto
  let ?t = "t\<lparr>line := [f], field := [], state := START_FIELD\<rparr>"
  have 1: "foldl tokenizer_step t (quote_field f @ '','') = ?t"
    using first_field_then_comma [of t f] assms
    by (simp add: in_field_char_def end_field_def)
  have 2: "foldl tokenizer_step ?t (join '','' (map quote_field (g # gs)) @ [LF])
             = ?t\<lparr>lines := lines ?t @ [line ?t @ (g # gs)], line := [], state := START_RECORD\<rparr>"
    by (intro rest_of_record) simp_all
  have "csv_row r = (quote_field f @ '','') @ (join '','' (map quote_field (g # gs)) @ [LF])"
    using r by (simp add: csv_row_def)
  then show ?thesis using 1 2 r assms by (simp del: join.simps)
qed

lemma all_records:
  "list_all (\<lambda>r. 2 \<le> length r) rs \<Longrightarrow>
   state t = START_RECORD \<Longrightarrow> field t = [] \<Longrightarrow> line t = [] \<Longrightarrow>
   foldl tokenizer_step t (concat (map csv_row rs)) = t\<lparr>lines := lines t @ rs\<rparr>"
proof (induction rs arbitrary: t)
  case Nil
  then show ?case by simp
next
  case (Cons r rs)
  let ?t = "t\<lparr>lines := lines t @ [r]\<rparr>"
  have 1: "foldl tokenizer_step t (csv_row r) = ?t"
    using Cons.prems by (intro whole_record) simp_all
  have 2: "foldl tokenizer_step ?t (concat (map csv_row rs)) = ?t\<lparr>lines := lines ?t @ rs\<rparr>"
    using Cons.prems by (intro Cons.IH) simp_all
  show ?case using 1 2 by simp
qed

lemma tokenize_csv_rows:
  "list_all (\<lambda>r. 2 \<le> length r) rs \<Longrightarrow> tokenize (concat (map csv_row rs)) = Inr rs"
  using all_records [of rs "\<lparr>state = START_RECORD, field = [], line = [], lines = []\<rparr>"]
  by (simp add: tokenize_def tokenize_from_def handle_eof_def)

subsection \<open>The layout of the exported files\<close>

lemma length_le_foldr_max: "r \<in> set rs \<Longrightarrow> length r \<le> foldr max (map length rs) 0"
  by (induction rs) (auto simp: max_def)

lemma DataFrame_Inr:
  assumes "DataFrame rs names = Inr df"
  shows "columns df = names" and "body df = map (pad_row (length names)) rs"
    and "list_all (\<lambda>r. length r \<le> length names) rs"
proof -
  show "columns df = names" using assms
    by (auto simp: DataFrame_def Let_def split: if_splits)
  show "body df = map (pad_row (length names)) rs" using assms
    by (auto simp: DataFrame_def Let_def split: if_splits)
  show "list_all (\<lambda>r. length r \<le> length names) rs"
  proof (cases "rs = []")
    case True
    then show ?thesis by simp
  next
    case False
    with assms have "foldr max (map length rs) 0 = length names"
      by (auto simp: DataFrame_def Let_def split: if_splits)
    then show ?thesis using length_le_foldr_max [of _ rs] by (auto simp: list_all_iff)
  qed
qed

lemma length_pad_row: "length r \<le> n \<Longrightarrow> length (pad_row n r) = n"
  by (simp add: pad_row_def)

lemma Triple_values: "Triple r = Inr t \<Longrightarrow> triple_values t = r"
  by (auto simp: Triple_def triple_values_def split: list.splits)

lemma map_result_Triple: "map_result Triple rs = Inr ts \<Longrightarrow> map triple_values ts = rs"
proof (induction rs arbitrary: ts)
  case Nil
  then show ?case by simp
next
  case (Cons r rs)
  then show ?case by (auto split: sum.splits dest: Triple_values)
qed

lemma map_result_Triple_empty: "map_result Triple rs = Inr ts \<Longrightarrow> (ts = []) = (rs = [])"
  by (cases rs) (auto split: sum.splits)

lemma tokenize_frame:
  assumes "2 \<le> length (columns df)"
    and "list_all (\<lambda>r. length r = length (columns df)) (body df)"
  shows "tokenize (csv_text df) = Inr (columns df # map (map cell_str) (body df))"
  unfolding csv_text_def
  using assms by (intro tokenize_csv_rows) (simp add: list_all_iff)

lemma Triple_of_kwargs_zip:
  "Triple_of_kwargs (zip TRIPLE_FIELD_NAMES (triple_values t)) = Inr t"
  by (simp add: Triple_of_kwargs_def TRIPLE_FIELD_NAMES_def triple_values_def)

lemma map_result_Triple_of_kwargs:
  "map_result Triple_of_kwargs (map (zip TRIPLE_FIELD_NAMES) (map triple_values ts)) = Inr ts"
  by (induction ts) (simp_all add: Triple_of_kwargs_zip)

lemma written_frame_tokenizes:
  assumes "DataFrame rs names = Inr df" and "2 \<le> length names"
    and "to_csv df fs out = Inr fs'"
  shows "fs' out = Some (File (csv_text df))"
    and "tokenize (csv_text df)
           = Inr (names # map (map cell_str) (map (pad_row (length names)) rs))"
    and "list_all (\<lambda>r. length (pad_row (length names) r) = length names) rs"
proof -
  note df = DataFrame_Inr [OF assms(1)]
  show "fs' out = Some (File (csv_text df))" using assms(3) by (rule to_csv_content)
  show len: "list_all (\<lambda>r. length (pad_row (length names) r) = length names) rs"
    using df(3) by (simp add: list_all_iff length_pad_row)
  have "tokenize (csv_text df) = Inr (columns df # map (map cell_str) (body df))"
    using assms(2) df(1,2) len by (intro tokenize_frame) (simp_all add: list_all_iff)
  then show "tokenize (csv_text df)
           = Inr (names # map (map cell_str) (map (pad_row (length names)) rs))"
    using df(1,2) by simp
qed

text \<open>
  The files written by write\_observations and write\_key\_values, read by the CSV
  tokenizer: the first record is the list of column names, in their order; the other
  records are the rows of the table, in table order; and every record has as many
  fields as there are column names, so there is no index column.
\<close>

theorem export_csv_layout:
  "(2 \<le> length names \<and> write_observations names db fs out = Inr fs' \<longrightarrow>
      (\<exists>rs bytes. select_all db ''observations'' = Inr rs \<and> fs' out = Some (File bytes)
         \<and> tokenize bytes = Inr (names # map (map cell_str) (map (pad_row (length names)) rs))
         \<and> list_all (\<lambda>r. length (pad_row (length names) r) = length names) rs))
   \<and> (write_key_values db fs out = Inr fs' \<longrightarrow>
      (\<exists>rs bytes. select_all db ''key_value_store'' = Inr rs \<and> fs' out = Some (File bytes)
         \<and> tokenize bytes = Inr ([''lookup_key'', ''value''] # map (map cell_str) (map (pad_row 2) rs))
         \<and> list_all (\<lambda>r. length (pad_row 2 r) = 2) rs))"
proof (intro conjI impI)
  assume "2 \<le> length names \<and> write_observations names db fs out = Inr fs'"
  then have n: "2 \<le> length names" and w: "write_observations names db fs out = Inr fs'"
    by simp_all
  from write_observations_frame [OF w] obtain rs df where
    f: "select_all db ''observations'' = Inr rs" "DataFrame rs names = Inr df"
       "to_csv df fs out = Inr fs'" by blast
  from f(1) written_frame_tokenizes [OF f(2) n f(3)]
  show "\<exists>rs bytes. select_all db ''observations'' = Inr rs \<and> fs' out = Some (File bytes)
         \<and> tokenize bytes = Inr (names # map (map cell_str) (map (pad_row (length names)) rs))
         \<and> list_all (\<lambda>r. length (pad_row (length names) r) = length names) rs"
    by blast
next
  assume w: "write_key_values db fs out = Inr fs'"
  from write_key_values_frame [OF w] obtain rs df where
    f: "select_all db ''key_value_store'' = Inr rs"
       "DataFrame rs [''lookup_key'', ''value''] = Inr df"
       "to_csv df fs out = Inr fs'" by blast
  have n: "2 \<le> length [''lookup_key'', ''value'']" by simp
  from f(1) written_frame_tokenizes [OF f(2) n f(3)]
  show "\<exists>rs bytes. select_all db ''key_value_store'' = Inr rs \<and> fs' out = Some (File bytes)
         \<and> tokenize bytes = Inr ([''lookup_key'', ''value''] # map (map cell_str) (map (pad_row 2) rs))
         \<and> list_all (\<lambda>r. length (pad_row 2 r) = 2) rs"
    by (auto simp: numeral_2_eq_2)
qed

lemma select_all_observations_demo:
  "select_all store_demo ''observations''
     = Inr [[Text ''geoId/06'', Text ''Count_Person'', Text ''2023'', Text ''5'']]"
  by (simp add: select_all_def store_demo_def key_value_table_def observations_table_def
      triples_table_def)

lemma select_all_key_values_demo:
  "select_all store_demo ''key_value_store'' = Inr [[Text ''k'', Text ''v'']]"
  by (simp add: select_all_def store_demo_def key_value_table_def observations_table_def
      triples_table_def)

theorem export_csv_layout_witness:
  "2 \<le> length four_field_names
   \<and> write_observations four_field_names store_demo Map.empty ''o.csv''
       = Inr [''o.csv'' \<mapsto> File observations_csv]
   \<and> tokenize observations_csv
       = Inr [[''entity'', ''variable'', ''date'', ''value''],
              [''geoId/06'', ''Count_Person'', ''2023'', ''5'']]
   \<and> write_key_values store_demo Map.empty ''k.csv'' = Inr [''k.csv'' \<mapsto> File key_values_csv]
   \<and> tokenize key_values_csv = Inr [[''lookup_key'', ''value''], [''k'', ''v'']]"
proof -
  have n: "2 \<le> length four_field_names" by (simp add: four_field_names_def)
  have w1: "write_observations four_field_names store_demo Map.empty ''o.csv''
              = Inr [''o.csv'' \<mapsto> File observations_csv]"
    by (simp add: write_observations_demo)
  have w2: "write_key_values store_demo Map.empty ''k.csv''
              = Inr [''k.csv'' \<mapsto> File key_values_csv]"
    by (simp add: write_key_values_demo)
  from export_csv_layout
         [of four_field_names store_demo Map.empty "''o.csv''"
             "[''o.csv'' \<mapsto> File observations_csv]"] n w1
  have "tokenize observations_csv
          = Inr (four_field_names
                 # map (map cell_str)
                     (map (pad_row (length four_field_names))
                        [[Text ''geoId/06'', Text ''Count_Person'', Text ''2023'', Text ''5'']]))"
    by (auto simp: select_all_observations_demo)
  then have t1: "tokenize observations_csv
       = Inr [[''entity'', ''variable'', ''date'', ''value''],
              [''geoId/06'', ''Count_Person'', ''2023'', ''5'']]"
    by (simp add: four_field_names_def pad_row_def)
  from export_csv_layout
         [of four_field_names store_demo Map.empty "''k.csv''"
             "[''k.csv'' \<mapsto> File key_values_csv]"] w2
  have "tokenize key_values_csv
          = Inr ([''lookup_key'', ''value'']
                 # map (map cell_str) (map (pad_row 2) [[Text ''k'', Text ''v'']]))"
    by (auto simp: select_all_key_values_demo)
  then have t2: "tokenize key_values_csv = Inr [[''lookup_key'', ''value''], [''k'', ''v'']]"
    by (simp add: pad_row_def)
  from n w1 t1 w2 t2 show ?thesis by simp
qed

text \<open>
  The file written by write\_triples for a triples table that has rows, read by the CSV
  tokenizer: the names of the fields of a triple, then the rows of the table in order.
\<close>

theorem write_triples_layout:
  "write_triples db fs out = Inr fs' \<and> select_all db ''triples'' = Inr rs \<and> rs \<noteq> [] \<longrightarrow>
     (\<exists>bytes. fs' out = Some (File bytes)
        \<and> tokenize bytes = Inr (TRIPLE_FIELD_NAMES # map (map cell_str) rs)
        \<and> list_all (\<lambda>r. length r = length TRIPLE_FIELD_NAMES) rs)"
proof
  assume a: "write_triples db fs out = Inr fs' \<and> select_all db ''triples'' = Inr rs \<and> rs \<noteq> []"
  from write_triples_frame [of db fs out fs'] a obtain triples where
    t: "map_result Triple rs = Inr triples"
       "to_csv (DataFrame_of_triples triples) fs out = Inr fs'" by auto
  from map_result_Triple [OF t(1)] have v: "map triple_values triples = rs" .
  with a have ne: "triples \<noteq> []" by auto
  have len: "list_all (\<lambda>r. length r = length TRIPLE_FIELD_NAMES) rs"
    unfolding v [symmetric]
    by (simp add: list_all_iff triple_values_def TRIPLE_FIELD_NAMES_def)
  have "tokenize (csv_text (DataFrame_of_triples triples))
          = Inr (columns (DataFrame_of_triples triples)
                 # map (map cell_str) (body (DataFrame_of_triples triples)))"
    using ne len v
    by (intro tokenize_frame)
       (simp_all add: DataFrame_of_triples_def TRIPLE_FIELD_NAMES_def)
  with ne v have "tokenize (csv_text (DataFrame_of_triples triples))
          = Inr (TRIPLE_FIELD_NAMES # map (map cell_str) rs)"
    by (simp add: DataFrame_of_triples_def)
  with to_csv_content [OF t(2)] len
  show "\<exists>bytes. fs' out = Some (File bytes)
        \<and> tokenize bytes = Inr (TRIPLE_FIELD_NAMES # map (map cell_str) rs)
        \<and> list_all (\<lambda>r. length r = length TRIPLE_FIELD_NAMES) rs"
    by blast
qed

lemma select_all_triples_demo:
  "select_all store_demo ''triples'' = Inr [[Text ''e1'', Text ''name'', Null, Text ''a, b'']]"
  by (simp add: select_all_def store_demo_def key_value_table_def observations_table_def
      triples_table_def)

theorem write_triples_layout_witness:
  "write_triples store_demo Map.empty ''t.csv'' = Inr [''t.csv'' \<mapsto> File triples_csv]
   \<and> select_all store_demo ''triples'' = Inr [[Text ''e1'', Text ''name'', Null, Text ''a, b'']]
   \<and> tokenize triples_csv
       = Inr [[''subject_id'', ''predicate'', ''object_id'', ''object_value''],
              [''e1'', ''name'', [], ''a, b'']]"
  using write_triples_layout
          [of store_demo Map.empty "''t.csv''" "[''t.csv'' \<mapsto> File triples_csv]"
              "[[Text ''e1'', Text ''name'', Null, Text ''a, b'']]"]
  by (simp add: write_triples_demo select_all_triples_demo TRIPLE_FIELD_NAMES_def)

subsection \<open>The text written is well-formed UTF-8\<close>

lemma utf8_valid_append: "utf8_valid a \<Longrightarrow> utf8_valid b \<Longrightarrow> utf8_valid (a @ b)"
proof (induction a rule: utf8_valid.induct)
  case 1
  then show ?case by simp
next
  case (2 a rest)
  show ?case
  proof (cases "byte_in a 0x00 0x7F")
    case True
    with 2 show ?thesis by simp
  next
    case n1: False
    show ?thesis
    proof (cases rest)
      case Nil
      with 2(5) n1 show ?thesis by simp
    next
      case r: (Cons b rest1)
      show ?thesis
      proof (cases "byte_in a 0xC2 0xDF")
        case True
        with 2 n1 r show ?thesis by simp
      next
        case n2: False
        show ?thesis
        proof (cases rest1)
          case Nil
          with 2(5) n1 n2 r show ?thesis by simp
        next
          case r1: (Cons c rest2)
          show ?thesis
          proof (cases "byte_in a 0xE0 0xEF")
            case True
            with 2 n1 n2 r r1 show ?thesis by simp
          next
            case n3: False
            show ?thesis
            proof (cases rest2)
              case Nil
              with 2(5) n1 n2 n3 r r1 show ?thesis by simp
            next
              case r2: (Cons d rest3)
              with 2 n1 n2 n3 r r1 show ?thesis by simp
            qed
          qed
        qed
      qed
    qed
  qed
qed

lemma escape_quotes_Cons:
  "escape_quotes (c # s) = (if c = CHR 0x22 then [c, c] else [c]) @ escape_quotes s"
  by (simp add: escape_quotes_def)

lemma quote_is_ascii: "byte_in (CHR 0x22) 0x00 0x7F"
  by (simp add: byte_in_def)

lemma not_ascii_not_quote: "\<not> byte_in a 0x00 0x7F \<Longrightarrow> a \<noteq> CHR 0x22"
  using quote_is_ascii by auto

lemma continuation_not_quote: "byte_in b 0x80 0xBF \<Longrightarrow> b \<noteq> CHR 0x22"
  by (auto simp: byte_in_def)

lemma continuation_subrange:
  "byte_in b 0xA0 0xBF \<Longrightarrow> byte_in b 0x80 0xBF"
  "byte_in b 0x80 0x9F \<Longrightarrow> byte_in b 0x80 0xBF"
  "byte_in b 0x90 0xBF \<Longrightarrow> byte_in b 0x80 0xBF"
  "byte_in b 0x80 0x8F \<Longrightarrow> byte_in b 0x80 0xBF"
  by (auto simp: byte_in_def)

lemma utf8_valid_ascii: "byte_in a 0x00 0x7F \<Longrightarrow> utf8_valid (a # rest) = utf8_valid rest"
  by simp

lemma utf8_valid_escape: "utf8_valid s \<Longrightarrow> utf8_valid (escape_quotes s)"
proof (induction s rule: utf8_valid.induct)
  case 1
  then show ?case by (simp add: escape_quotes_def)
next
  case (2 a rest)
  show ?case
  proof (cases "byte_in a 0x00 0x7F")
    case True
    with 2(1,5) have "utf8_valid (escape_quotes rest)" by simp
    with True show ?thesis
      by (auto simp: escape_quotes_Cons utf8_valid_ascii quote_is_ascii
          simp del: utf8_valid.simps)
  next
    case n1: False
    then have a: "a \<noteq> CHR 0x22" by (rule not_ascii_not_quote)
    show ?thesis
    proof (cases rest)
      case Nil
      with 2(5) n1 show ?thesis by simp
    next
      case r: (Cons b rest1)
      show ?thesis
      proof (cases "byte_in a 0xC2 0xDF")
        case True
        with 2(5) n1 r have b: "byte_in b 0x80 0xBF" and v: "utf8_valid rest1" by simp_all
        from b have "b \<noteq> CHR 0x22" by (rule continuation_not_quote)
        moreover from 2(2) n1 r True v have "utf8_valid (escape_quotes rest1)" by simp
        ultimately show ?thesis using a n1 r True b by (simp add: escape_quotes_Cons)
      next
        case n2: False
        show ?thesis
        proof (cases rest1)
          case Nil
          with 2(5) n1 n2 r show ?thesis by simp
        next
          case r1: (Cons c rest2)
          show ?thesis
          proof (cases "byte_in a 0xE0 0xEF")
            case True
            with 2(5) n1 n2 r r1 have
              b: "if byte_in a 0xE0 0xE0 then byte_in b 0xA0 0xBF
                  else if byte_in a 0xED 0xED then byte_in b 0x80 0x9F
                  else byte_in b 0x80 0xBF"
              and c: "byte_in c 0x80 0xBF" and v: "utf8_valid rest2" by simp_all
            from b have "byte_in b 0x80 0xBF"
              by (auto split: if_splits intro: continuation_subrange)
            then have "b \<noteq> CHR 0x22" by (rule continuation_not_quote)
            moreover from c have "c \<noteq> CHR 0x22" by (rule continuation_not_quote)
            moreover from 2(3) n1 n2 r r1 True v have "utf8_valid (escape_quotes rest2)"
              by simp
            ultimately show ?thesis using a n1 n2 r r1 True b c
              by (simp add: escape_quotes_Cons)
          next
            case n3: False
            show ?thesis
            proof (cases rest2)
              case Nil
              with 2(5) n1 n2 n3 r r1 show ?thesis by simp
            next
              case r2: (Cons d rest3)
              with 2(5) n1 n2 n3 r r1 have a4: "byte_in a 0xF0 0xF4"
                and b: "if byte_in a 0xF0 0xF0 then byte_in b 0x90 0xBF
                    else if byte_in a 0xF4 0xF4 then byte_in b 0x80 0x8F
                    else byte_in b 0x80 0xBF"
                and c: "byte_in c 0x80 0xBF" and d: "byte_in d 0x80 0xBF"
                and v: "utf8_valid rest3" by simp_all
              from b have "byte_in b 0x80 0xBF"
                by (auto split: if_splits intro: continuation_subrange)
              then have "b \<noteq> CHR 0x22" by (rule continuation_not_quote)
              moreover from c have "c \<noteq> CHR 0x22" by (rule continuation_not_quote)
              moreover from d have "d \<noteq> CHR 0x22" by (rule continuation_not_quote)
              moreover from 2(4) n1 n2 n3 r r1 r2 v have "utf8_valid (escape_quotes rest3)"
                by simp
              ultimately show ?thesis using a n1 n2 n3 r r1 r2 a4 b c d
                by (simp add: escape_quotes_Cons)
            qed
          qed
        qed
      qed
    qed
  qed
qed

lemma utf8_valid_quote_field: "utf8_valid s \<Longrightarrow> utf8_valid (quote_field s)"
proof (cases "needs_quoting s")
  case False
  assume "utf8_valid s"
  with False show ?thesis by (simp add: quote_field_plain)
next
  case True
  assume "utf8_valid s"
  then have "utf8_valid (escape_quotes s)" by (rule utf8_valid_escape)
  moreover have "utf8_valid [CHR 0x22]" by (simp add: byte_in_def)
  ultimately have "utf8_valid (escape_quotes s @ [CHR 0x22])" by (rule utf8_valid_append)
  then show ?thesis using True
    by (simp add: quote_field_quoted utf8_valid_ascii quote_is_ascii del: utf8_valid.simps)
qed

lemma utf8_valid_join:
  "list_all utf8_valid xs \<Longrightarrow> utf8_valid (join '','' xs)"
proof (induction "'',''" xs rule: join.induct)
  case 1
  show ?case by simp
next
  case (2 x)
  then show ?case by simp
next
  case (3 x y ys)
  have comma: "byte_in (CHR '','') 0x00 0x7F" by (simp add: byte_in_def)
  from 3 have "utf8_valid (join '','' (y # ys))" by simp
  with comma have rest: "utf8_valid ('','' @ join '','' (y # ys))"
    by (simp add: utf8_valid_ascii del: utf8_valid.simps join.simps)
  from 3(2) have "utf8_valid x" by simp
  then have "utf8_valid (x @ '','' @ join '','' (y # ys))"
    using rest by (rule utf8_valid_append)
  then show ?case by (simp del: utf8_valid.simps)
qed

lemma utf8_valid_csv_row: "list_all utf8_valid r \<Longrightarrow> utf8_valid (csv_row r)"
proof -
  assume r: "list_all utf8_valid r"
  have lf: "utf8_valid [LF]" by (simp add: byte_in_def)
  have "utf8_valid (if r = [[]] then [CHR 0x22, CHR 0x22] else join '','' (map quote_field r))"
  proof (cases "r = [[]]")
    case True
    then show ?thesis by (simp add: byte_in_def)
  next
    case False
    from r have "list_all utf8_valid (map quote_field r)"
      by (simp add: list_all_iff utf8_valid_quote_field)
    then show ?thesis using False by (simp add: utf8_valid_join)
  qed
  then show ?thesis unfolding csv_row_def using lf by (rule utf8_valid_append)
qed

lemma utf8_valid_concat: "list_all utf8_valid xs \<Longrightarrow> utf8_valid (concat xs)"
  by (induction xs) (simp_all add: utf8_valid_append del: utf8_valid.simps(2))

lemma utf8_valid_csv_rows:
  "list_all (list_all utf8_valid) rs \<Longrightarrow> utf8_valid (concat (map csv_row rs))"
  by (rule utf8_valid_concat) (simp add: list_all_iff utf8_valid_csv_row)

subsection \<open>Writing triples and reading them back\<close>

lemmas tokenize_defs =
  tokenize_def tokenize_from_def tokenizer_step_def start_record_char_def
  start_field_char_def in_field_char_def handle_eof_def push_def end_field_def
  end_line_def is_blank_def

lemma write_triples_list_empty:
  "write_triples_list [] Map.empty ''triples.csv'' = Inr [''triples.csv'' \<mapsto> File [LF]]"
  by (simp add: write_triples_list_def to_csv_def write_file_def csv_text_def csv_row_def
      DataFrame_of_triples_def)

lemma tokenize_empty_line: "tokenize [LF] = Inr []"
  by (simp add: tokenize_defs)

text \<open>
  C10 at the empty list of triples: write\_triples\_list writes a file that holds one
  empty line and no header, and read\_triples\_csv raises on it, because a CSV file
  without a line has no columns, whatever pandas would make of the columns of a
  file that has some.
\<close>

theorem triples_csv_empty_list:
  "write_triples_list [] Map.empty ''triples.csv'' = Inr [''triples.csv'' \<mapsto> File [LF]]
   \<and> (\<forall>frame_of_lines. write_then_read_triples frame_of_lines [] = Inl EmptyDataError)"
  by (simp add: write_then_read_triples_def write_triples_list_empty read_triples_csv_def
      read_csv_def tokenize_empty_line byte_in_def)

lemma utf8_valid_field_names: "list_all utf8_valid TRIPLE_FIELD_NAMES"
  by (simp add: TRIPLE_FIELD_NAMES_def byte_in_def)

lemma utf8_valid_triples_text:
  assumes "list_all text_triple triples"
  shows "utf8_valid (csv_text (DataFrame_of_triples triples))"
proof -
  have "list_all (list_all utf8_valid) (map (map cell_str) (map triple_values triples))"
    using assms by (auto simp: list_all_iff text_triple_def)
  then have "list_all (list_all utf8_valid)
               (columns (DataFrame_of_triples triples)
                # map (map cell_str) (body (DataFrame_of_triples triples)))"
    using utf8_valid_field_names by (simp add: DataFrame_of_triples_def)
  then show ?thesis unfolding csv_text_def by (rule utf8_valid_csv_rows)
qed

lemma tokenize_triples_text:
  assumes "triples \<noteq> []"
  shows "tokenize (csv_text (DataFrame_of_triples triples))
           = Inr (TRIPLE_FIELD_NAMES # map (map cell_str) (map triple_values triples))"
proof -
  have "tokenize (csv_text (DataFrame_of_triples triples))
          = Inr (columns (DataFrame_of_triples triples)
                 # map (map cell_str) (body (DataFrame_of_triples triples)))"
    using assms
    by (intro tokenize_frame)
       (simp_all add: DataFrame_of_triples_def TRIPLE_FIELD_NAMES_def list_all_iff
          triple_values_def)
  with assms show ?thesis by (simp add: DataFrame_of_triples_def)
qed

lemma read_back_triples:
  assumes "triples \<noteq> []" and "list_all text_triple triples"
    and "frame_of_lines (TRIPLE_FIELD_NAMES # map (map cell_str) (map triple_values triples))
           = Inr \<lparr>columns = TRIPLE_FIELD_NAMES, body = map triple_values triples\<rparr>"
  shows "write_then_read_triples frame_of_lines triples = Inr triples"
proof -
  let ?bytes = "csv_text (DataFrame_of_triples triples)"
  have w: "write_triples_list triples Map.empty ''triples.csv''
             = Inr [''triples.csv'' \<mapsto> File ?bytes]"
    by (simp add: write_triples_list_def to_csv_def write_file_def)
  have "read_csv frame_of_lines [''triples.csv'' \<mapsto> File ?bytes] ''triples.csv''
          = Inr \<lparr>columns = TRIPLE_FIELD_NAMES, body = map triple_values triples\<rparr>"
    using utf8_valid_triples_text [OF assms(2)] tokenize_triples_text [OF assms(1)] assms(3)
    by (simp add: read_csv_def)
  then have "read_triples_csv frame_of_lines [''triples.csv'' \<mapsto> File ?bytes] ''triples.csv''
          = Inr triples"
    using map_result_Triple_of_kwargs [of triples]
    by (simp add: read_triples_csv_def to_dict_records_def)
  with w show ?thesis by (simp add: write_then_read_triples_def)
qed

text \<open>
  The round trip for a list of triples that is not empty and whose fields are texts:
  when pandas reads the columns of the file back as the values written, reading the
  file written by write\_triples\_list returns the list, whatever characters the texts
  hold (commas, quotes, line ends, blanks) and the empty text included.
\<close>

theorem triples_csv_round_trip:
  "triples \<noteq> [] \<and> list_all text_triple triples
   \<and> frame_of_lines (TRIPLE_FIELD_NAMES # map (map cell_str) (map triple_values triples))
       = Inr \<lparr>columns = TRIPLE_FIELD_NAMES, body = map triple_values triples\<rparr>
   \<longrightarrow> write_then_read_triples frame_of_lines triples = Inr triples"
  using read_back_triples [of triples frame_of_lines] by blast

theorem triples_csv_round_trip_witness:
  "triples_quoted \<noteq> [] \<and> list_all text_triple triples_quoted
   \<and> frame_of_text_lines
        (TRIPLE_FIELD_NAMES # map (map cell_str) (map triple_values triples_quoted))
       = Inr \<lparr>columns = TRIPLE_FIELD_NAMES, body = map triple_values triples_quoted\<rparr>
   \<and> write_then_read_triples frame_of_text_lines triples_quoted = Inr triples_quoted"
proof -
  have 1: "triples_quoted \<noteq> []" by (simp add: triples_quoted_def)
  have 2: "list_all text_triple triples_quoted"
    by (simp add: triples_quoted_def text_triple_def triple_values_def byte_in_def)
  have 3: "frame_of_text_lines
        (TRIPLE_FIELD_NAMES # map (map cell_str) (map triple_values triples_quoted))
       = Inr \<lparr>columns = TRIPLE_FIELD_NAMES, body = map triple_values triples_quoted\<rparr>"
    by (simp add: frame_of_text_lines_def triples_quoted_def triple_values_def)
  from triples_csv_round_trip [of triples_quoted frame_of_text_lines] 1 2 3
  show ?thesis by simp
qed

end
